theory Spec2Isabelle
  imports Complex_Main
begin

section \<open>JavaScript numbers and arrays\<close>

text \<open>
  The indicator code computes on JavaScript numbers. The model keeps the three special
  values the code can produce or test for (\<open>NaN\<close>, \<open>Infinity\<close>, \<open>-Infinity\<close>) and
  idealises the finite ones as exact reals: there is no rounding and no overflow, and
  \<open>-0\<close> is identified with \<open>0\<close> (so a division of a non-zero number by zero takes the
  sign of the numerator). The one place where a rounded value selects an array element,
  the index of \<open>calculateVaR\<close>, rounds as doubles do. \<open>undefined\<close>, which an
  out-of-range array read produces, is converted to \<open>NaN\<close> by every operator the code
  applies to it.
\<close>

datatype number = Num real | PInf | NInf | NaN

instantiation number :: "{plus, minus, uminus, times, inverse, abs, ord}"
begin

fun plus_number :: "number \<Rightarrow> number \<Rightarrow> number" where
  "Num a + Num b = Num (a + b)"
| "NaN + _ = NaN"
| "_ + NaN = NaN"
| "PInf + NInf = NaN"
| "NInf + PInf = NaN"
| "PInf + _ = PInf"
| "_ + PInf = PInf"
| "NInf + _ = NInf"
| "_ + NInf = NInf"

fun uminus_number :: "number \<Rightarrow> number" where
  "- Num a = Num (- a)"
| "- PInf = NInf"
| "- NInf = PInf"
| "- NaN = NaN"

definition minus_number :: "number \<Rightarrow> number \<Rightarrow> number" where
  "a - b = a + (- b :: number)"

fun times_number :: "number \<Rightarrow> number \<Rightarrow> number" where
  "Num a * Num b = Num (a * b)"
| "NaN * _ = NaN"
| "_ * NaN = NaN"
| "PInf * Num b = (if b = 0 then NaN else if 0 < b then PInf else NInf)"
| "NInf * Num b = (if b = 0 then NaN else if 0 < b then NInf else PInf)"
| "Num a * PInf = (if a = 0 then NaN else if 0 < a then PInf else NInf)"
| "Num a * NInf = (if a = 0 then NaN else if 0 < a then NInf else PInf)"
| "PInf * PInf = PInf"
| "PInf * NInf = NInf"
| "NInf * PInf = NInf"
| "NInf * NInf = PInf"

fun divide_number :: "number \<Rightarrow> number \<Rightarrow> number" where
  "divide_number (Num a) (Num b) =
     (if b \<noteq> 0 then Num (a / b) else if a = 0 then NaN else if 0 < a then PInf else NInf)"
| "divide_number NaN _ = NaN"
| "divide_number _ NaN = NaN"
| "divide_number (Num a) PInf = Num 0"
| "divide_number (Num a) NInf = Num 0"
| "divide_number PInf (Num b) = (if 0 \<le> b then PInf else NInf)"
| "divide_number NInf (Num b) = (if 0 \<le> b then NInf else PInf)"
| "divide_number PInf PInf = NaN"
| "divide_number PInf NInf = NaN"
| "divide_number NInf PInf = NaN"
| "divide_number NInf NInf = NaN"

definition inverse_number :: "number \<Rightarrow> number" where
  "inverse_number a = Num 1 div a"

fun abs_number :: "number \<Rightarrow> number" where
  "\<bar>Num a\<bar> = Num \<bar>a\<bar>"
| "\<bar>PInf\<bar> = PInf"
| "\<bar>NInf\<bar> = PInf"
| "\<bar>NaN\<bar> = NaN"

fun less_number :: "number \<Rightarrow> number \<Rightarrow> bool" where
  "Num a < Num b = (a < b)"
| "NaN < _ = False"
| "_ < NaN = False"
| "_ < NInf = False"
| "NInf < _ = True"
| "PInf < _ = False"
| "Num a < PInf = True"

definition less_eq_number :: "number \<Rightarrow> number \<Rightarrow> bool" where
  "a \<le> b = (a < b \<or> (a = b \<and> a \<noteq> (NaN :: number)))"

instance ..

end

text \<open>\<open>isNaN(x)\<close>; an \<open>undefined\<close> argument is \<open>NaN\<close> here already.\<close>

definition isNaN :: "number \<Rightarrow> bool" where
  "isNaN x = (x = NaN)"

text \<open>\<open>Math.sqrt\<close>, \<open>Math.log\<close> and \<open>Math.pow\<close> with a natural exponent.\<close>

fun Math_sqrt :: "number \<Rightarrow> number" where
  "Math_sqrt (Num a) = (if a < 0 then NaN else Num (sqrt a))"
| "Math_sqrt PInf = PInf"
| "Math_sqrt NInf = NaN"
| "Math_sqrt NaN = NaN"

fun Math_log :: "number \<Rightarrow> number" where
  "Math_log (Num a) = (if a < 0 then NaN else if a = 0 then NInf else Num (ln a))"
| "Math_log PInf = PInf"
| "Math_log NInf = NaN"
| "Math_log NaN = NaN"

primrec Math_pow :: "number \<Rightarrow> nat \<Rightarrow> number" where
  "Math_pow x 0 = Num 1"
| "Math_pow x (Suc n) = x * Math_pow x n"

text \<open>\<open>Math.floor\<close> of a finite number, as the integer it denotes.\<close>

definition Math_floor :: "real \<Rightarrow> int" where
  "Math_floor x = \<lfloor>x\<rfloor>"

text \<open>\<open>a || b\<close> on numbers: \<open>0\<close> and \<open>NaN\<close> (and \<open>undefined\<close>) are falsy.\<close>

definition falsy :: "number \<Rightarrow> bool" where
  "falsy a = (a = Num 0 \<or> a = NaN)"

definition js_or :: "number \<Rightarrow> number \<Rightarrow> number" where
  "js_or a b = (if falsy a then b else a)"

text \<open>
  \<open>xs[i]\<close> used as a number: an index outside the array reads \<open>undefined\<close>, which the
  arithmetic operators, \<open>=== 0\<close> and \<open>isNaN\<close> all treat as \<open>NaN\<close>.
\<close>

definition get :: "number list \<Rightarrow> int \<Rightarrow> number" where
  "get xs i = (if 0 \<le> i \<and> i < int (length xs) then xs ! nat i else NaN)"

text \<open>
  \<open>xs.slice(s, e)\<close>: a negative bound counts from the end, and both bounds are clamped
  to the array.
\<close>

definition slice :: "'a list \<Rightarrow> int \<Rightarrow> int \<Rightarrow> 'a list" where
  "slice xs s e =
     (let n = int (length xs);
          k = (if s < 0 then max (n + s) 0 else min s n);
          final = (if e < 0 then max (n + e) 0 else min e n)
      in take (nat (final - k)) (drop (nat k) xs))"

text \<open>\<open>xs.reduce((a, b) => a + b, 0)\<close>.\<close>

definition reduce_sum :: "number list \<Rightarrow> number" where
  "reduce_sum xs = foldl (+) (Num 0) xs"

section \<open>TechnicalIndicators.tsx\<close>

text \<open>
  A \<open>for\<close> loop that pushes one value per index, computed from the index alone, is a
  \<open>map\<close> over the index range; a loop that reads what it has pushed so far is a
  \<open>foldl\<close> over the index range whose state is the array built so far.
  Periods are natural numbers, compared as integers where the code subtracts from them.
\<close>

definition TI_calculateSMA :: "number list \<Rightarrow> nat \<Rightarrow> number list" where
  "TI_calculateSMA prices period =
     map (\<lambda>i. if int i < int period - 1 then NaN
               else reduce_sum (slice prices (int i - int period + 1) (int i + 1))
                      / Num (real period))
         [0..<length prices]"

definition ema_push :: "number list \<Rightarrow> nat \<Rightarrow> number \<Rightarrow> number \<Rightarrow> number list \<Rightarrow> nat \<Rightarrow> number list" where
  "ema_push prices period multiplier initialEMA ema i =
     (if int i < int period - 1 then ema @ [NaN]
      else if int i = int period - 1 then ema @ [initialEMA]
      else ema @ [get prices (int i) * multiplier
                    + get ema (int i - 1) * (Num 1 - multiplier)])"

definition TI_calculateEMA :: "number list \<Rightarrow> nat \<Rightarrow> number list" where
  "TI_calculateEMA prices period =
     (let multiplier = Num 2 / Num (real period + 1);
          m = min period (length prices);
          sum = foldl (\<lambda>s i. s + get prices (int i)) (Num 0) [0..<m];
          initialEMA = sum / Num (real m)
      in foldl (ema_push prices period multiplier initialEMA) [] [0..<length prices])"

text \<open>
  The first loop of \<open>calculateRSI\<close>, which fills \<open>gains\<close> and \<open>losses\<close> from the price
  changes. AIInsights.tsx runs the same loop on \<open>data[i].close\<close>.
\<close>

definition price_gains :: "number list \<Rightarrow> number list" where
  "price_gains prices =
     map (\<lambda>i. let change = get prices (int i) - get prices (int i - 1)
               in if Num 0 < change then change else Num 0)
         [1..<length prices]"

definition price_losses :: "number list \<Rightarrow> number list" where
  "price_losses prices =
     map (\<lambda>i. let change = get prices (int i) - get prices (int i - 1)
               in if change < Num 0 then \<bar>change\<bar> else Num 0)
         [1..<length prices]"

text \<open>The value pushed once the two averages are read; shared by the RSI routines.\<close>

definition rsi_value :: "number \<Rightarrow> number \<Rightarrow> number" where
  "rsi_value avgGain avgLoss =
     (if avgLoss = Num 0 then Num 100
      else let rs = avgGain / avgLoss in Num 100 - (Num 100 / (Num 1 + rs)))"

definition TI_calculateRSI :: "number list \<Rightarrow> nat \<Rightarrow> number list" where
  "TI_calculateRSI prices period =
     (let gains = price_gains prices;
          losses = price_losses prices;
          avgGains = TI_calculateEMA gains period;
          avgLosses = TI_calculateEMA losses period
      in map (\<lambda>i. if i < period then NaN
                   else rsi_value (get avgGains (int i - int period))
                                  (get avgLosses (int i - int period)))
             [0..<length prices])"

text \<open>
  \<open>Array(macd.length - signal.length)\<close> would throw on a negative length; \<open>signal\<close> is
  never longer than \<open>macd\<close> (lemma \<open>length_signal\<close> below rests on it), so the
  difference is taken on natural numbers.
\<close>

record macd_result =
  macd :: "number list"
  signal :: "number list"

definition TI_calculateMACD :: "number list \<Rightarrow> macd_result" where
  "TI_calculateMACD prices =
     (let ema12 = TI_calculateEMA prices 12;
          ema26 = TI_calculateEMA prices 26;
          macd = map (\<lambda>i. let val = ema12 ! i
                           in if isNaN val \<or> isNaN (get ema26 (int i)) then NaN
                              else val - get ema26 (int i))
                     [0..<length ema12];
          validMacd = filter (\<lambda>val. \<not> isNaN val) macd;
          signal = TI_calculateEMA validMacd 9;
          paddedSignal = replicate (length macd - length signal) NaN @ signal
      in \<lparr>macd = macd, signal = paddedSignal\<rparr>)"

record bollinger_result =
  upper :: "number list"
  lower :: "number list"
  middle :: "number list"

definition TI_calculateBollingerBands :: "number list \<Rightarrow> nat \<Rightarrow> number \<Rightarrow> bollinger_result" where
  "TI_calculateBollingerBands prices period stdDev =
     (let sma = TI_calculateSMA prices period;
          band = (\<lambda>i. let slice = slice prices (int i - int period + 1) (int i + 1);
                           mean = get sma (int i);
                           variance = foldl (\<lambda>sum price. sum + Math_pow (price - mean) 2)
                                        (Num 0) slice / Num (real period)
                       in Math_sqrt variance * stdDev)
      in \<lparr>upper = map (\<lambda>i. if int i < int period - 1 then NaN
                           else get sma (int i) + band i) [0..<length prices],
          lower = map (\<lambda>i. if int i < int period - 1 then NaN
                           else get sma (int i) - band i) [0..<length prices],
          middle = sma\<rparr>)"

text \<open>
  A row of the historical series, as the components read it: \<open>time\<close>, \<open>close\<close> and
  \<open>price\<close>. A missing numeric field reads \<open>undefined\<close>, which is \<open>NaN\<close> in arithmetic and
  falsy under \<open>||\<close>, so it is held as \<open>NaN\<close>.
\<close>

record bar =
  time :: string
  close :: number
  price :: number

text \<open>\<open>xs[i]\<close> stored without being used as a number: \<open>None\<close> is \<open>undefined\<close>.\<close>

definition at_index :: "'a list \<Rightarrow> nat \<Rightarrow> 'a option" where
  "at_index xs i = (if i < length xs then Some (xs ! i) else None)"

record IndicatorData =
  ind_time :: string
  ind_price :: number
  sma20 :: "number option"
  sma50 :: "number option"
  ema12 :: "number option"
  ema26 :: "number option"
  rsi :: "number option"
  ind_macd :: "number option"
  ind_signal :: "number option"
  bollinger_upper :: "number option"
  bollinger_lower :: "number option"
  bollinger_middle :: "number option"

text \<open>
  \<open>calculateIndicators\<close> returns early, setting nothing, on an empty series (\<open>None\<close>);
  otherwise the rows it passes to \<open>setIndicatorData\<close>.
\<close>

definition TI_calculateIndicators :: "bar list \<Rightarrow> IndicatorData list option" where
  "TI_calculateIndicators data =
     (let prices = map (\<lambda>d. js_or (close d) (price d)) data
      in if length prices = 0 then None
         else
           let s20 = TI_calculateSMA prices 20;
               s50 = TI_calculateSMA prices 50;
               e12 = TI_calculateEMA prices 12;
               e26 = TI_calculateEMA prices 26;
               r = TI_calculateRSI prices 14;
               m = TI_calculateMACD prices;
               b = TI_calculateBollingerBands prices 20 (Num 2)
           in Some (map (\<lambda>(index, item).
                \<lparr>ind_time = time item,
                 ind_price = js_or (close item) (price item),
                 sma20 = at_index s20 index,
                 sma50 = at_index s50 index,
                 ema12 = at_index e12 index,
                 ema26 = at_index e26 index,
                 rsi = at_index r index,
                 ind_macd = at_index (macd m) index,
                 ind_signal = at_index (signal m) index,
                 bollinger_upper = at_index (upper b) index,
                 bollinger_lower = at_index (lower b) index,
                 bollinger_middle = at_index (middle b) index\<rparr>)
              (enumerate 0 data)))"

section \<open>AIInsights.tsx\<close>

text \<open>
  \<open>calculateEMA\<close> here returns its argument on a short array and otherwise an array that
  starts at the seed, without a \<open>NaN\<close> prefix; the loop state is \<open>(ema, emaValues)\<close>.
  \<open>calculateRSI\<close> fills \<open>gains\<close> and \<open>losses\<close> from \<open>data[i].close\<close> as the loop of
  TechnicalIndicators.tsx does from \<open>prices[i]\<close>, and ends in the same \<open>if\<close>.
\<close>

definition AI_calculateEMA :: "number list \<Rightarrow> nat \<Rightarrow> number list" where
  "AI_calculateEMA data period =
     (if length data < period then data
      else
        let multiplier = Num 2 / Num (real period + 1);
            ema = reduce_sum (slice data 0 (int period)) / Num (real period)
        in snd (foldl (\<lambda>(ema, emaValues) i.
                   let ema' = get data (int i) * multiplier + ema * (Num 1 - multiplier)
                   in (ema', emaValues @ [ema']))
                 (ema, [ema]) [period..<length data]))"

text \<open>The exponentially smoothed variance loop of \<open>calculateVolatility\<close>, \<open>alpha = 0.1\<close>.\<close>

definition smoothed_variance :: "number list \<Rightarrow> number \<Rightarrow> number" where
  "smoothed_variance returns mean =
     (let alpha = Num (1 / 10)
      in foldl (\<lambda>variance i.
            let diff = get returns (int i) - mean
            in alpha * (diff * diff) + (Num 1 - alpha) * variance)
          (Num 0) [0..<length returns])"

definition log_returns :: "bar list \<Rightarrow> number list" where
  "log_returns data =
     map (\<lambda>(index, item). Math_log (close item / close (data ! index)))
         (enumerate 0 (slice data 1 (int (length data))))"

definition AI_calculateVolatility :: "bar list \<Rightarrow> number" where
  "AI_calculateVolatility data =
     (if length data < 2 then Num 0
      else
        let returns = log_returns data;
            emaReturns = AI_calculateEMA returns 20;
            mean = get emaReturns (int (length emaReturns) - 1);
            variance = smoothed_variance returns mean
        in Math_sqrt variance * Math_sqrt (Num 252) * Num 100)"

definition AI_calculateRSI :: "bar list \<Rightarrow> nat \<Rightarrow> number" where
  "AI_calculateRSI data period =
     (if length data < period + 1 then Num 50
      else
        let prices = map close data;
            gains = price_gains prices;
            losses = price_losses prices;
            avgGain = AI_calculateEMA gains period;
            avgLoss = AI_calculateEMA losses period;
            currentAvgGain = get avgGain (int (length avgGain) - 1);
            currentAvgLoss = get avgLoss (int (length avgLoss) - 1)
        in rsi_value currentAvgGain currentAvgLoss)"

section \<open>App.tsx\<close>

text \<open>
  The loop state of \<open>calculateRSI\<close> is \<open>(gains, losses, rsi)\<close>; \<open>null\<close> entries of
  \<open>rsi\<close> are \<open>None\<close>.
\<close>

definition App_rsi_step ::
  "bar list \<Rightarrow> nat \<Rightarrow> number \<times> number \<times> number option list \<Rightarrow> nat
     \<Rightarrow> number \<times> number \<times> number option list" where
  "App_rsi_step data period = (\<lambda>(gains, losses, rsi) i.
     let diff = close (data ! i) - close (data ! (i - 1))
     in if i < period then
          (if Num 0 < diff then (gains + diff, losses, rsi @ [None])
           else (gains, losses - diff, rsi @ [None]))
        else if i = period then
          (let (gains, losses) =
                 (if Num 0 < diff then (gains + diff, losses) else (gains, losses - diff));
               avgGain = gains / Num (real period);
               avgLoss = js_or (losses / Num (real period)) (Num 1);
               rs = avgGain / avgLoss
           in (gains, losses, rsi @ [Some (Num 100 - Num 100 / (Num 1 + rs))]))
        else
          (let gain = (if Num 0 < diff then diff else Num 0);
               loss = (if diff < Num 0 then - diff else Num 0);
               gains = (gains * Num (real period - 1) + gain) / Num (real period);
               losses = (losses * Num (real period - 1) + loss) / Num (real period);
               rs = gains / js_or losses (Num 1)
           in (gains, losses, rsi @ [Some (Num 100 - Num 100 / (Num 1 + rs))])))"

definition App_calculateRSI :: "bar list \<Rightarrow> nat \<Rightarrow> number option list" where
  "App_calculateRSI data period =
     snd (snd (foldl (App_rsi_step data period) (Num 0, Num 0, []) [1..<length data]))"

section \<open>RiskAnalysis\<close>

text \<open>
  The risk metrics of the \<open>RiskAnalysis\<close> component. \<open>calculateVaR\<close> is called with the
  confidence levels \<open>0.95\<close> and \<open>0.99\<close>; the confidence is a finite double here, held
  as the real it denotes. The loop state of \<open>calculateMaxDrawdown\<close> is
  \<open>(maxDrawdown, peak)\<close>.
\<close>

definition calculateReturns :: "bar list \<Rightarrow> number list" where
  "calculateReturns data =
     map (\<lambda>i. (close (data ! i) - close (data ! (i - 1))) / close (data ! (i - 1)))
         [1..<length data]"

definition Risk_calculateVolatility :: "number list \<Rightarrow> number" where
  "Risk_calculateVolatility returns =
     (if length returns < 2 then Num 0
      else
        let mean = reduce_sum returns / Num (real (length returns));
            variance = foldl (\<lambda>sum ret. sum + Math_pow (ret - mean) 2) (Num 0) returns
                         / Num (real (length returns) - 1)
        in Math_sqrt (variance * Num 252) * Num 100)"

text \<open>
  \<open>[...returns].sort((a, b) => a - b)\<close>: a stable sort by the comparator, here by
  insertion. An element moves behind another only when the comparator is positive; on
  finite numbers every correct sort gives the same array.
\<close>

fun insert_by :: "(number \<Rightarrow> number \<Rightarrow> number) \<Rightarrow> number \<Rightarrow> number list \<Rightarrow> number list" where
  "insert_by cmp x [] = [x]"
| "insert_by cmp x (y # ys) =
     (if Num 0 < cmp x y then y # insert_by cmp x ys else x # y # ys)"

definition sort_by :: "(number \<Rightarrow> number \<Rightarrow> number) \<Rightarrow> number list \<Rightarrow> number list" where
  "sort_by cmp xs = foldr (insert_by cmp) xs []"

text \<open>
  \<open>Math.floor((1 - confidence) * sortedReturns.length)\<close> selects an array element, so
  here the rounding of the two double operations is part of the model: the difference
  and the product are each rounded to the nearest double, ties to even, before the floor.
  \<open>round_double\<close> rounds a real to 53 significant bits with an unbounded exponent.
  For a double \<open>confidence\<close> this gives the index of the code: \<open>1 - confidence\<close> is
  never subnormal, and where the double product overflows to an infinity or is flushed
  towards zero, the two clamps that follow give the same index for it as for the value
  rounded here.
\<close>

definition round_even :: "real \<Rightarrow> int" where
  "round_even x =
     (let f = \<lfloor>x\<rfloor>; d = x - of_int f
      in if d < 1 / 2 then f else if 1 / 2 < d then f + 1
         else if even f then f else f + 1)"

definition round_double :: "real \<Rightarrow> real" where
  "round_double x =
     (if x = 0 then 0
      else
        let e = \<lfloor>log 2 \<bar>x\<bar>\<rfloor>;
            ulp = 2 powr (of_int e - 52)
        in of_int (round_even (x / ulp)) * ulp)"

definition calculateVaR :: "number list \<Rightarrow> real \<Rightarrow> number" where
  "calculateVaR returns confidence =
     (if length returns = 0 then Num 0
      else
        let sortedReturns = sort_by (\<lambda>a b. a - b) returns;
            index = Math_floor (round_double
                      (round_double (1 - confidence) * real (length sortedReturns)));
            index = (if index < 0 then 0 else index);
            index = (if index \<ge> int (length sortedReturns)
                     then int (length sortedReturns) - 1 else index)
        in \<bar>get sortedReturns index\<bar> * Num 100)"

definition drawdown_step :: "bar list \<Rightarrow> number \<times> number \<Rightarrow> nat \<Rightarrow> number \<times> number" where
  "drawdown_step data = (\<lambda>(maxDrawdown, peak) i.
     let peak = (if peak < close (data ! i) then close (data ! i) else peak);
         drawdown = (peak - close (data ! i)) / peak
     in (if maxDrawdown < drawdown then drawdown else maxDrawdown, peak))"

definition calculateMaxDrawdown :: "bar list \<Rightarrow> number" where
  "calculateMaxDrawdown data =
     (if length data < 2 then Num 0
      else
        let (maxDrawdown, peak) =
              foldl (drawdown_step data) (Num 0, close (data ! 0)) [1..<length data]
        in maxDrawdown * Num 100)"

section \<open>Reference definitions\<close>

text \<open>The array \<open>calculateEMA\<close> has built after \<open>n\<close> iterations of its loop.\<close>

definition ema_run :: "number list \<Rightarrow> nat \<Rightarrow> number \<Rightarrow> number \<Rightarrow> nat \<Rightarrow> number list" where
  "ema_run prices period multiplier initialEMA n =
     foldl (ema_push prices period multiplier initialEMA) [] [0..<n]"

text \<open>
  The exponential moving average on exact reals: seeded with the mean of the first
  \<open>p\<close> values (the value at index \<open>p - 1\<close>), then smoothed with \<open>k = 2 / (p + 1)\<close>.
\<close>

primrec ema_ref :: "real list \<Rightarrow> nat \<Rightarrow> nat \<Rightarrow> real" where
  "ema_ref ps p 0 = sum_list (take p ps) / real p"
| "ema_ref ps p (Suc i) =
     (if Suc i < p then sum_list (take p ps) / real p
      else ps ! Suc i * (2 / (real p + 1)) + ema_ref ps p i * (1 - 2 / (real p + 1)))"

text \<open>Sample statistics of a list of daily returns, and the simple returns of closes.\<close>

definition mean_ref :: "real list \<Rightarrow> real" where
  "mean_ref xs = sum_list xs / real (length xs)"

definition sample_variance :: "real list \<Rightarrow> real" where
  "sample_variance xs = (\<Sum>x\<leftarrow>xs. (x - mean_ref xs)\<^sup>2) / (real (length xs) - 1)"

definition annualized_volatility :: "real list \<Rightarrow> real" where
  "annualized_volatility xs = sqrt (sample_variance xs * 252) * 100"

definition simple_returns :: "real list \<Rightarrow> real list" where
  "simple_returns cs = map (\<lambda>i. (cs ! i - cs ! (i - 1)) / cs ! (i - 1)) [1..<length cs]"

text \<open>
  The one-day historical Value-at-Risk in percent as the claim words it: the negated
  return at index \<open>floor ((1 - c) * n)\<close> of the ascending returns, times 100.
\<close>

definition quantile_index :: "real list \<Rightarrow> real \<Rightarrow> nat" where
  "quantile_index rs c = nat \<lfloor>(1 - c) * real (length rs)\<rfloor>"

definition historical_VaR :: "real list \<Rightarrow> real \<Rightarrow> real" where
  "historical_VaR rs c = 100 * - (sort rs ! quantile_index rs c)"

text \<open>
  The index \<open>calculateVaR\<close> reads: the floor of the rounded product, after the two clamps.
\<close>

definition VaR_index :: "nat \<Rightarrow> real \<Rightarrow> nat" where
  "VaR_index n c =
     nat (min (max \<lfloor>round_double (round_double (1 - c) * real n)\<rfloor> 0) (int n - 1))"

text \<open>
  The maximum drawdown as the claim words it: \<open>peak_ref cs i\<close> is the running maximum of
  the closes up to and including index \<open>i\<close>.
\<close>

definition peak_ref :: "real list \<Rightarrow> nat \<Rightarrow> real" where
  "peak_ref cs i = Max (set (take (Suc i) cs))"

definition drawdown_ref :: "real list \<Rightarrow> nat \<Rightarrow> real" where
  "drawdown_ref cs i = (peak_ref cs i - cs ! i) / peak_ref cs i"

definition max_drawdown_ref :: "real list \<Rightarrow> real" where
  "max_drawdown_ref cs = 100 * Max (drawdown_ref cs ` {..<length cs})"

text \<open>
  The window of \<open>p\<close> values ending at index \<open>i\<close>, its mean (the simple moving average)
  and its standard deviation about that mean with denominator \<open>p\<close>.
\<close>

definition window :: "real list \<Rightarrow> nat \<Rightarrow> nat \<Rightarrow> real list" where
  "window cs p i = take p (drop (i + 1 - p) cs)"

definition sma_ref :: "real list \<Rightarrow> nat \<Rightarrow> nat \<Rightarrow> real" where
  "sma_ref cs p i = sum_list (window cs p i) / real p"

definition stddev_ref :: "real list \<Rightarrow> nat \<Rightarrow> nat \<Rightarrow> real" where
  "stddev_ref cs p i = sqrt ((\<Sum>x\<leftarrow>window cs p i. (x - sma_ref cs p i)\<^sup>2) / real p)"

text \<open>
  The relative strength index as the claim words it: the gain and the loss of the price
  change into index \<open>j + 1\<close>, their \<open>p\<close>-period exponential averages over the changes up
  to and including index \<open>i\<close> (the change into \<open>i\<close> is entry \<open>i - 1\<close>), and
  \<open>100 - 100 / (1 + RS)\<close>, or \<open>100\<close> when the average loss is \<open>0\<close>.
\<close>

definition gains_ref :: "real list \<Rightarrow> real list" where
  "gains_ref ps = map (\<lambda>j. max (ps ! Suc j - ps ! j) 0) [0..<length ps - 1]"

definition losses_ref :: "real list \<Rightarrow> real list" where
  "losses_ref ps = map (\<lambda>j. max (ps ! j - ps ! Suc j) 0) [0..<length ps - 1]"

definition rsi_ref :: "real list \<Rightarrow> nat \<Rightarrow> nat \<Rightarrow> real" where
  "rsi_ref ps p i =
     (let avgGain = ema_ref (gains_ref ps) p (i - 1);
          avgLoss = ema_ref (losses_ref ps) p (i - 1)
      in if avgLoss = 0 then 100 else 100 - 100 / (1 + avgGain / avgLoss))"

text \<open>One iteration of the loop of \<open>calculateEMA\<close> of AIInsights.tsx, named.\<close>

definition AI_ema_step :: "number list \<Rightarrow> number \<Rightarrow> number \<times> number list \<Rightarrow> nat \<Rightarrow> number \<times> number list" where
  "AI_ema_step data multiplier = (\<lambda>(ema, emaValues) i.
     let ema' = get data (int i) * multiplier + ema * (Num 1 - multiplier)
     in (ema', emaValues @ [ema']))"

text \<open>Rows that carry the given closes (as \<open>close\<close> and \<open>price\<close>) and no time stamp.\<close>

definition bars_of :: "real list \<Rightarrow> bar list" where
  "bars_of cs = map (\<lambda>c. \<lparr>time = [], close = Num c, price = Num c\<rparr>) cs"

section \<open>Arithmetic on finite numbers\<close>

lemma Num_minus [simp]: "Num a - Num b = Num (a - b)"
  by (simp add: minus_number_def)

lemma Num_divide: "b \<noteq> 0 \<Longrightarrow> Num a / Num b = Num (a / b)"
  by simp

lemma foldl_plus_Num: "foldl (+) (Num a) (map Num xs) = Num (a + sum_list xs)"
  by (induction xs arbitrary: a) (simp_all add: add.assoc)

lemma reduce_sum_Num: "reduce_sum (map Num xs) = Num (sum_list xs)"
  by (simp add: reduce_sum_def foldl_plus_Num)

lemma get_nth: "i < length xs \<Longrightarrow> get xs (int i) = xs ! i"
  by (simp add: get_def)

lemma get_append_lt: "i < int (length xs) \<Longrightarrow> get (xs @ ys) i = get xs i"
  by (auto simp: get_def nth_append)

lemma get_negative: "i < 0 \<Longrightarrow> get xs i = NaN"
  by (simp add: get_def)

lemma ema_run_Suc:
  "ema_run P p m e (Suc n) = ema_push P p m e (ema_run P p m e n) n"
  by (simp add: ema_run_def)

lemma length_ema_push: "length (ema_push P p m e acc i) = Suc (length acc)"
  by (simp add: ema_push_def)

lemma length_ema_run: "length (ema_run P p m e n) = n"
  by (induction n) (simp_all add: ema_run_Suc length_ema_push, simp add: ema_run_def)

lemma ema_push_append: "\<exists>v. ema_push P p m e acc i = acc @ [v]"
  by (simp add: ema_push_def)

lemma ema_run_nth:
  "i < n \<Longrightarrow> ema_run P p m e n ! i =
     (if int i < int p - 1 then NaN
      else if int i = int p - 1 then e
      else get P (int i) * m + get (ema_run P p m e n) (int i - 1) * (Num 1 - m))"
proof (induction n)
  case 0
  then show ?case by simp
next
  case (Suc n)
  let ?F = "ema_run P p m e n"
  obtain v where v: "ema_run P p m e (Suc n) = ?F @ [v]"
    using ema_push_append [of P p m e ?F n] by (auto simp: ema_run_Suc)
  have len: "length ?F = n" by (rule length_ema_run)
  have prev: "get (?F @ [v]) (int i - 1) = get ?F (int i - 1)"
  proof (cases "i = 0")
    case True
    then show ?thesis by (simp add: get_negative)
  next
    case False
    with Suc.prems len show ?thesis by (intro get_append_lt) simp
  qed
  show ?case
  proof (cases "i < n")
    case True
    then have "ema_run P p m e (Suc n) ! i = ?F ! i"
      by (simp add: v nth_append len)
    with Suc.IH [OF True] prev show ?thesis by (simp add: v)
  next
    case False
    with Suc.prems have i: "i = n" by simp
    have "ema_run P p m e (Suc n) ! n = last (ema_push P p m e ?F n)"
      using v len by (simp add: ema_run_Suc nth_append)
    then show ?thesis using prev i by (simp add: ema_push_def v)
  qed
qed

section \<open>The exponential moving average of TechnicalIndicators.tsx\<close>

lemma TI_calculateEMA_run:
  "TI_calculateEMA P p =
     ema_run P p (Num 2 / Num (real p + 1))
       (foldl (\<lambda>s i. s + get P (int i)) (Num 0) [0..<min p (length P)]
          / Num (real (min p (length P))))
       (length P)"
  by (simp add: TI_calculateEMA_def ema_run_def Let_def)

lemma length_TI_calculateEMA: "length (TI_calculateEMA P p) = length P"
  by (simp add: TI_calculateEMA_run length_ema_run)

lemma initial_sum_Num:
  "m \<le> length ps \<Longrightarrow>
     foldl (\<lambda>s i. s + get (map Num ps) (int i)) (Num 0) [0..<m] = Num (sum_list (take m ps))"
proof (induction m)
  case 0
  then show ?case by simp
next
  case (Suc m)
  then have "take (Suc m) ps = take m ps @ [ps ! m]"
    by (simp add: take_Suc_conv_app_nth)
  with Suc show ?case by (simp add: get_def)
qed

lemma TI_calculateEMA_nth:
  assumes "i < length P"
  shows "TI_calculateEMA P p ! i =
     (if int i < int p - 1 then NaN
      else if int i = int p - 1
        then foldl (\<lambda>s i. s + get P (int i)) (Num 0) [0..<min p (length P)]
               / Num (real (min p (length P)))
      else get P (int i) * (Num 2 / Num (real p + 1))
             + get (TI_calculateEMA P p) (int i - 1) * (Num 1 - Num 2 / Num (real p + 1)))"
  unfolding TI_calculateEMA_run using assms by (rule ema_run_nth)

lemma TI_calculateEMA_seed:
  assumes "1 \<le> p" and "p \<le> length ps"
  shows "TI_calculateEMA (map Num ps) p ! (p - 1) = Num (sum_list (take p ps) / real p)"
proof -
  have "p - 1 < length (map Num ps)" using assms by simp
  from TI_calculateEMA_nth [OF this, of p] assms show ?thesis
    by (simp add: initial_sum_Num min_absorb1 of_nat_diff)
qed

lemma TI_calculateEMA_step:
  assumes "1 \<le> p" and "p \<le> i" and "i < length ps"
  shows "TI_calculateEMA (map Num ps) p ! i =
     Num (ps ! i) * Num (2 / (real p + 1))
       + TI_calculateEMA (map Num ps) p ! (i - 1) * Num (1 - 2 / (real p + 1))"
proof -
  have i: "i < length (map Num ps)" using assms by simp
  have pos: "real p + 1 \<noteq> 0" by (simp add: add_nonneg_eq_0_iff)
  have prev: "get (TI_calculateEMA (map Num ps) p) (int i - 1) = TI_calculateEMA (map Num ps) p ! (i - 1)"
    using assms get_nth [of "i - 1" "TI_calculateEMA (map Num ps) p"]
    by (simp add: length_TI_calculateEMA of_nat_diff)
  from TI_calculateEMA_nth [OF i, of p] assms prev pos show ?thesis
    by (simp add: get_def)
qed

lemma TI_calculateEMA_finite:
  assumes "1 \<le> p" and "p - 1 \<le> i" and "i < length ps"
  shows "TI_calculateEMA (map Num ps) p ! i = Num (ema_ref ps p i)"
  using assms
proof (induction i)
  case 0
  then have p: "p = 1" and len: "p \<le> length ps"
    by linarith+
  from TI_calculateEMA_seed [OF "0.prems"(1) len] p show ?case by simp
next
  case (Suc i)
  show ?case
  proof (cases "Suc i < p")
    case True
    with Suc.prems have i: "Suc i = p - 1" and len: "p \<le> length ps" by simp_all
    from TI_calculateEMA_seed [OF Suc.prems(1) len] True show ?thesis
      unfolding i [symmetric] by simp
  next
    case False
    then have "p - 1 \<le> i" by simp
    with Suc have "TI_calculateEMA (map Num ps) p ! i = Num (ema_ref ps p i)" by simp
    with TI_calculateEMA_step [of p "Suc i" ps] False Suc.prems show ?thesis by simp
  qed
qed

lemma TI_calculateEMA_NaN:
  assumes "i + 1 < p" and "i < length P"
  shows "TI_calculateEMA P p ! i = NaN"
  using TI_calculateEMA_nth [OF assms(2), of p] assms(1) by simp

text \<open>
  C3: on at least \<open>p\<close> finite prices and for a period \<open>p \<ge> 1\<close>, \<open>calculateEMA\<close> of
  TechnicalIndicators.tsx returns as many entries as prices; the entries before index
  \<open>p - 1\<close> are \<open>NaN\<close>, the entry at \<open>p - 1\<close> is the arithmetic mean of the first \<open>p\<close>
  prices, and every later entry is \<open>prices[i] * k + ema[i - 1] * (1 - k)\<close> with
  \<open>k = 2 / (p + 1)\<close>.
\<close>

theorem TI_calculateEMA_recurrence:
  assumes "1 \<le> p" and "p \<le> length ps"
  shows "let ema = TI_calculateEMA (map Num ps) p; k = 2 / (real p + 1) in
     length ema = length ps \<and>
     (\<forall>i. i + 1 < p \<longrightarrow> ema ! i = NaN) \<and>
     ema ! (p - 1) = Num (sum_list (take p ps) / real p) \<and>
     (\<forall>i. p \<le> i \<and> i < length ps \<longrightarrow>
        ema ! i = Num (ps ! i) * Num k + ema ! (i - 1) * Num (1 - k))"
proof -
  have "TI_calculateEMA (map Num ps) p ! i = NaN" if "i + 1 < p" for i
    using that assms by (intro TI_calculateEMA_NaN) simp_all
  moreover note TI_calculateEMA_seed [OF assms]
  moreover have "TI_calculateEMA (map Num ps) p ! i =
      Num (ps ! i) * Num (2 / (real p + 1))
        + TI_calculateEMA (map Num ps) p ! (i - 1) * Num (1 - 2 / (real p + 1))"
    if "p \<le> i" and "i < length ps" for i
    using assms(1) that by (rule TI_calculateEMA_step)
  ultimately show ?thesis
    unfolding Let_def length_TI_calculateEMA by auto
qed

theorem TI_calculateEMA_recurrence_witness:
  "let ema = TI_calculateEMA (map Num [1, 2, 4, 8]) 2 in
     length ema = 4 \<and> ema ! 0 = NaN \<and> ema ! 1 = Num (3 / 2) \<and>
     ema ! 2 = Num 4 * Num (2 / 3) + ema ! 1 * Num (1 / 3) \<and>
     ema ! 3 = Num 8 * Num (2 / 3) + ema ! 2 * Num (1 / 3)"
proof -
  have a: "(1::nat) \<le> 2" and b: "2 \<le> length [1, 2, 4, 8 :: real]" by simp_all
  from TI_calculateEMA_recurrence [OF a b] show ?thesis
    by (simp add: Let_def)
qed

section \<open>Lengths of the indicator arrays\<close>

lemma length_TI_calculateSMA: "length (TI_calculateSMA prices period) = length prices"
  by (simp add: TI_calculateSMA_def)


lemma length_TI_calculateRSI: "length (TI_calculateRSI prices period) = length prices"
  by (simp add: TI_calculateRSI_def Let_def)

lemma length_macd: "length (macd (TI_calculateMACD prices)) = length prices"
  by (simp add: TI_calculateMACD_def Let_def length_TI_calculateEMA)

lemma signal_padding:
  "signal (TI_calculateMACD prices) =
     replicate (length (macd (TI_calculateMACD prices))
                - length (TI_calculateEMA (filter (\<lambda>val. \<not> isNaN val) (macd (TI_calculateMACD prices))) 9))
         NaN
       @ TI_calculateEMA (filter (\<lambda>val. \<not> isNaN val) (macd (TI_calculateMACD prices))) 9"
  by (simp add: TI_calculateMACD_def Let_def)

lemma length_padded: "length ys \<le> n \<Longrightarrow> length (replicate (n - length ys) x @ ys) = n"
  by simp

lemma length_signal: "length (signal (TI_calculateMACD prices)) = length prices"
proof -
  let ?m = "macd (TI_calculateMACD prices)"
  have "length (TI_calculateEMA (filter (\<lambda>val. \<not> isNaN val) ?m) 9) \<le> length ?m"
    unfolding length_TI_calculateEMA by (rule length_filter_le)
  then show ?thesis
    unfolding signal_padding [of prices] by (simp only: length_padded length_macd)
qed

lemma length_bollinger:
  "length (upper (TI_calculateBollingerBands prices period w)) = length prices"
  "length (lower (TI_calculateBollingerBands prices period w)) = length prices"
  "length (middle (TI_calculateBollingerBands prices period w)) = length prices"
  by (simp_all add: TI_calculateBollingerBands_def Let_def length_TI_calculateSMA)

lemma at_index_Some: "i < length xs \<Longrightarrow> at_index xs i = Some (xs ! i)"
  by (simp add: at_index_def)

lemma calculateIndicators_rows:
  assumes "data \<noteq> []"
  shows "\<exists>rows. TI_calculateIndicators data = Some rows \<and> length rows = length data \<and>
     (\<forall>i<length data.
        sma20 (rows ! i) \<noteq> None \<and> sma50 (rows ! i) \<noteq> None \<and>
        ema12 (rows ! i) \<noteq> None \<and> ema26 (rows ! i) \<noteq> None \<and>
        rsi (rows ! i) \<noteq> None \<and> ind_macd (rows ! i) \<noteq> None \<and>
        ind_signal (rows ! i) \<noteq> None \<and> bollinger_upper (rows ! i) \<noteq> None \<and>
        bollinger_lower (rows ! i) \<noteq> None \<and> bollinger_middle (rows ! i) \<noteq> None)"
  using assms
  by (simp add: TI_calculateIndicators_def Let_def nth_enumerate_eq at_index_def
      length_TI_calculateSMA length_TI_calculateEMA length_TI_calculateRSI
      length_macd length_signal length_bollinger)

text \<open>
  C9: every indicator function of TechnicalIndicators.tsx returns arrays of exactly the
  input's length (\<open>calculateSMA\<close>, \<open>calculateEMA\<close>, \<open>calculateRSI\<close>; \<open>macd\<close> and
  \<open>signal\<close> of \<open>calculateMACD\<close>; \<open>upper\<close>, \<open>lower\<close> and \<open>middle\<close> of
  \<open>calculateBollingerBands\<close>), for every array of numbers, so on a non-empty series
  \<open>calculateIndicators\<close> produces one row per input row and none of its per-index reads
  falls outside an indicator array.
\<close>

theorem indicators_preserve_length:
  "length (TI_calculateSMA prices p) = length prices \<and>
   length (TI_calculateEMA prices p) = length prices \<and>
   length (TI_calculateRSI prices p) = length prices \<and>
   length (macd (TI_calculateMACD prices)) = length prices \<and>
   length (signal (TI_calculateMACD prices)) = length prices \<and>
   length (upper (TI_calculateBollingerBands prices p w)) = length prices \<and>
   length (lower (TI_calculateBollingerBands prices p w)) = length prices \<and>
   length (middle (TI_calculateBollingerBands prices p w)) = length prices \<and>
   (data \<noteq> [] \<longrightarrow>
     (\<exists>rows. TI_calculateIndicators data = Some rows \<and> length rows = length data \<and>
       (\<forall>i<length data.
          sma20 (rows ! i) \<noteq> None \<and> sma50 (rows ! i) \<noteq> None \<and>
          ema12 (rows ! i) \<noteq> None \<and> ema26 (rows ! i) \<noteq> None \<and>
          rsi (rows ! i) \<noteq> None \<and> ind_macd (rows ! i) \<noteq> None \<and>
          ind_signal (rows ! i) \<noteq> None \<and> bollinger_upper (rows ! i) \<noteq> None \<and>
          bollinger_lower (rows ! i) \<noteq> None \<and> bollinger_middle (rows ! i) \<noteq> None)))"
  using calculateIndicators_rows [of data]
  by (simp only: length_TI_calculateSMA length_TI_calculateEMA length_TI_calculateRSI
      length_macd length_signal length_bollinger simp_thms) blast

lemma slice_from_1: "slice xs 1 (int (length xs)) = drop 1 xs"
  by (cases xs) (simp_all add: slice_def Let_def)

lemma length_log_returns: "length (log_returns data) = length data - 1"
  by (simp add: log_returns_def slice_from_1)

lemma get_last: "xs \<noteq> [] \<Longrightarrow> get xs (int (length xs) - 1) = last xs"
  by (simp add: get_def last_conv_nth nat_diff_distrib')

lemma AI_calculateEMA_short: "length data < period \<Longrightarrow> AI_calculateEMA data period = data"
  by (simp add: AI_calculateEMA_def)

lemma AI_calculateVolatility_short:
  assumes "2 \<le> length data" and "length data \<le> 20"
  shows "AI_calculateVolatility data =
     Math_sqrt (smoothed_variance (log_returns data) (last (log_returns data)))
       * Math_sqrt (Num 252) * Num 100"
proof -
  have len: "length (log_returns data) < 20" and ne: "log_returns data \<noteq> []"
    using assms length_log_returns [of data] by auto
  from assms show ?thesis
    by (simp add: AI_calculateVolatility_def Let_def AI_calculateEMA_short [OF len] get_last [OF ne])
qed

theorem indicators_preserve_length_witness:
  "length (TI_calculateRSI [Num 3, Num 4] 14) = 2 \<and>
   length (signal (TI_calculateMACD [Num 3, Num 4])) = 2 \<and>
   (\<exists>rows. TI_calculateIndicators
        [\<lparr>time = ''09:30'', close = Num 3, price = Num 3\<rparr>,
         \<lparr>time = ''09:31'', close = Num 4, price = Num 4\<rparr>] = Some rows \<and>
      length rows = 2 \<and> rsi (rows ! 1) \<noteq> None \<and> ind_signal (rows ! 1) \<noteq> None)"
proof -
  have ne: "[\<lparr>time = ''09:30'', close = Num 3, price = Num 3\<rparr>,
         \<lparr>time = ''09:31'', close = Num 4, price = Num 4\<rparr>] \<noteq> []" by simp
  from indicators_preserve_length [of "[Num 3, Num 4]" 14 "Num 2"
      "[\<lparr>time = ''09:30'', close = Num 3, price = Num 3\<rparr>,
        \<lparr>time = ''09:31'', close = Num 4, price = Num 4\<rparr>]"] ne
  show ?thesis by auto
qed

section \<open>The exponential moving average of AIInsights.tsx on short input\<close>

text \<open>
  C10: on an array strictly shorter than the period, \<open>calculateEMA\<close> of AIInsights.tsx
  returns the array itself; so \<open>calculateVolatility\<close> of AIInsights.tsx, on a series of
  at least two rows that yields fewer than 20 log returns, smooths the variance about the
  last raw log return.
\<close>

theorem AI_calculateEMA_short_input:
  "(length xs < period \<longrightarrow> AI_calculateEMA xs period = xs) \<and>
   (2 \<le> length data \<and> length (log_returns data) < 20 \<longrightarrow>
      AI_calculateEMA (log_returns data) 20 = log_returns data \<and>
      AI_calculateVolatility data =
        Math_sqrt (smoothed_variance (log_returns data) (last (log_returns data)))
          * Math_sqrt (Num 252) * Num 100)"
proof -
  have "length data \<le> 20" if "length (log_returns data) < 20"
    using that by (simp add: length_log_returns)
  then show ?thesis
    by (auto simp: AI_calculateEMA_short AI_calculateVolatility_short)
qed

theorem AI_calculateEMA_short_input_witness:
  "AI_calculateEMA [Num 1, Num 2] 3 = [Num 1, Num 2] \<and>
   AI_calculateVolatility
     [\<lparr>time = ''d1'', close = Num 1, price = Num 1\<rparr>,
      \<lparr>time = ''d2'', close = Num 2, price = Num 2\<rparr>,
      \<lparr>time = ''d3'', close = Num 4, price = Num 4\<rparr>] = Num 0"
proof -
  let ?d = "[\<lparr>time = ''d1'', close = Num 1, price = Num 1\<rparr>,
      \<lparr>time = ''d2'', close = Num 2, price = Num 2\<rparr>,
      \<lparr>time = ''d3'', close = Num 4, price = Num 4\<rparr>]"
  have r: "log_returns ?d = [Num (ln 2), Num (ln 2)]"
    by (simp add: log_returns_def slice_def)
  have v: "smoothed_variance [Num (ln 2), Num (ln 2)] (Num (ln 2)) = Num 0"
    by (simp add: smoothed_variance_def get_def upt_rec)
  from AI_calculateEMA_short_input [of "[Num 1, Num 2]" 3 ?d] show ?thesis
    by (simp add: r v)
qed

section \<open>Annualized volatility of RiskAnalysis\<close>

lemma Math_pow_2: "Math_pow (Num d) 2 = Num (d\<^sup>2)"
  by (simp add: numeral_2_eq_2 power2_eq_square)

lemma foldl_squares_Num:
  "foldl (\<lambda>sum ret. sum + Math_pow (ret - Num m) 2) (Num a) (map Num xs)
     = Num (a + (\<Sum>x\<leftarrow>xs. (x - m)\<^sup>2))"
  by (induction xs arbitrary: a) (simp_all add: Math_pow_2 add.assoc)

lemma sample_variance_nonneg: "2 \<le> length xs \<Longrightarrow> 0 \<le> sample_variance xs"
  unfolding sample_variance_def
  by (intro divide_nonneg_nonneg sum_list_nonneg) auto

lemma Risk_calculateVolatility_Num:
  "Risk_calculateVolatility (map Num rs) =
     (if length rs < 2 then Num 0 else Num (annualized_volatility rs))"
proof (cases "length rs < 2")
  case True
  then show ?thesis by (simp add: Risk_calculateVolatility_def)
next
  case False
  then have n: "real (length rs) \<noteq> 0" "real (length rs) - 1 \<noteq> 0" by auto
  have mean: "reduce_sum (map Num rs) / Num (real (length rs)) = Num (mean_ref rs)"
    using n by (simp add: reduce_sum_Num mean_ref_def)
  have var: "foldl (\<lambda>sum ret. sum + Math_pow (ret - Num (mean_ref rs)) 2) (Num 0) (map Num rs)
               / Num (real (length rs) - 1) = Num (sample_variance rs)"
    using n by (simp add: foldl_squares_Num sample_variance_def)
  have "0 \<le> sample_variance rs * 252"
    using sample_variance_nonneg [of rs] False by simp
  then have "Math_sqrt (Num (sample_variance rs) * Num 252) * Num 100
      = Num (annualized_volatility rs)"
    by (simp add: annualized_volatility_def)
  with False show ?thesis
    by (simp add: Risk_calculateVolatility_def Let_def mean var del: times_number.simps)
qed

lemma calculateReturns_Num:
  assumes "map close data = map Num cs" and "0 \<notin> set (butlast cs)"
  shows "calculateReturns data = map Num (simple_returns cs)"
proof -
  have len: "length data = length cs"
    using assms(1) by (metis length_map)
  have c: "close (data ! i) = Num (cs ! i)" if "i < length cs" for i
    using assms(1) that len by (metis nth_map)
  have nz: "cs ! i \<noteq> 0" if "i < length cs - 1" for i
  proof -
    have "i < length (butlast cs)" using that by simp
    then have "butlast cs ! i \<in> set (butlast cs)" by (rule nth_mem)
    moreover have "butlast cs ! i = cs ! i"
      using that by (simp add: nth_butlast)
    ultimately show ?thesis using assms(2) by metis
  qed
  show ?thesis
    unfolding calculateReturns_def simple_returns_def len
    by (rule nth_equalityI) (simp_all add: c nz)
qed

text \<open>
  C6: on at least two finite daily returns \<open>calculateVolatility\<close> of RiskAnalysis returns
  the annualized volatility in percent, \<open>sqrt (s\<^sup>2 * 252) * 100\<close> with \<open>s\<^sup>2\<close> the sample
  variance (denominator \<open>n - 1\<close>), and \<open>0\<close> on fewer than two; \<open>calculateReturns\<close> produces
  the simple returns \<open>(close[i] - close[i - 1]) / close[i - 1]\<close> of a series of finite
  closes, none of the divisors being zero.
\<close>

theorem Risk_calculateVolatility_annualized:
  "Risk_calculateVolatility (map Num rs) =
     (if length rs < 2 then Num 0
      else Num (sqrt ((\<Sum>x\<leftarrow>rs. (x - sum_list rs / real (length rs))\<^sup>2)
                        / (real (length rs) - 1) * 252) * 100)) \<and>
   (map close data = map Num cs \<and> 0 \<notin> set (butlast cs) \<longrightarrow>
      calculateReturns data =
        map (\<lambda>i. Num ((cs ! i - cs ! (i - 1)) / cs ! (i - 1))) [1..<length cs])"
  using calculateReturns_Num [of data cs]
  by (simp add: Risk_calculateVolatility_Num annualized_volatility_def sample_variance_def
      mean_ref_def simple_returns_def)

theorem Risk_calculateVolatility_annualized_witness:
  "Risk_calculateVolatility (map Num [1 / 100, 3 / 100]) = Num (sqrt (2 / 10000 * 252) * 100) \<and>
   calculateReturns
     [\<lparr>time = ''d1'', close = Num 100, price = Num 100\<rparr>,
      \<lparr>time = ''d2'', close = Num 110, price = Num 110\<rparr>,
      \<lparr>time = ''d3'', close = Num 99, price = Num 99\<rparr>]
     = [Num (1 / 10), Num (- (1 / 10))]"
  using Risk_calculateVolatility_annualized [of "[1 / 100, 3 / 100]"
      "[\<lparr>time = ''d1'', close = Num 100, price = Num 100\<rparr>,
        \<lparr>time = ''d2'', close = Num 110, price = Num 110\<rparr>,
        \<lparr>time = ''d3'', close = Num 99, price = Num 99\<rparr>]" "[100, 110, 99]"]
  by (simp add: upt_rec power2_eq_square)

section \<open>Historical Value-at-Risk of RiskAnalysis\<close>

lemma insert_by_Num:
  "insert_by (\<lambda>a b. a - b) (Num x) (map Num ys) = map Num (insort x ys)"
  by (induction ys) (auto simp: minus_number_def)

lemma sort_by_Num: "sort_by (\<lambda>a b. a - b) (map Num rs) = map Num (sort rs)"
  by (induction rs) (simp_all add: sort_by_def insert_by_Num)

text \<open>
  Rounding to a double, once the binade of the argument is known: between \<open>2\<^sup>e\<close> and
  \<open>2\<^sup>e\<^sup>+\<^sup>1\<close> the doubles are the multiples of \<open>2\<^sup>e\<^sup>-\<^sup>5\<^sup>2\<close>. The two corollaries put the
  binade as a power of two with a natural exponent, below and above \<open>1\<close>.
\<close>

lemma floor_log2:
  assumes "2 powr of_int e \<le> x" and "x < 2 powr (of_int e + 1)"
  shows "\<lfloor>log 2 x\<rfloor> = e"
proof -
  have pos: "0 < x" using assms(1) powr_gt_zero [of 2 "of_int e"] by linarith
  have "of_int e \<le> log 2 x" using assms(1) pos by (simp add: le_log_iff)
  moreover have "log 2 x < of_int e + 1" using assms(2) pos by (simp add: log_less_iff)
  ultimately show ?thesis by (simp add: floor_eq_iff)
qed

lemma round_double_binade:
  assumes "2 powr of_int e \<le> \<bar>x\<bar>" and "\<bar>x\<bar> < 2 powr (of_int e + 1)"
  shows "round_double x
           = of_int (round_even (x / 2 powr (of_int e - 52))) * 2 powr (of_int e - 52)"
proof -
  have "x \<noteq> 0" using assms(1) powr_gt_zero [of 2 "of_int e"] by auto
  with floor_log2 [OF assms] show ?thesis
    by (simp add: round_double_def Let_def)
qed

lemma two_powr_nat: "(2::real) powr real k = 2 ^ k"
  by (simp add: powr_realpow)

lemma two_powr_neg_nat: "(2::real) powr - real k = 1 / 2 ^ k"
  by (simp add: powr_minus two_powr_nat divide_inverse)

lemma round_double_below:
  assumes "1 / 2 ^ k \<le> \<bar>x\<bar>" and "\<bar>x\<bar> < 2 / 2 ^ k"
  shows "round_double x = of_int (round_even (x * 2 ^ (k + 52))) / 2 ^ (k + 52)"
proof -
  have a: "(2::real) powr of_int (- int k) = 1 / 2 ^ k"
    using two_powr_neg_nat [of k] by simp
  have "(2::real) powr (of_int (- int k) + 1) = 2 powr of_int (- int k) * 2 powr 1"
    by (rule powr_add)
  then have b: "(2::real) powr (of_int (- int k) + 1) = 2 / 2 ^ k"
    unfolding a by simp
  have "of_int (- int k) - 52 = - real (k + 52)" by simp
  then have c: "(2::real) powr (of_int (- int k) - 52) = 1 / 2 ^ (k + 52)"
    by (simp only: two_powr_neg_nat)
  from round_double_binade [of "- int k" x] assms show ?thesis
    unfolding a b c by simp
qed

lemma round_double_above:
  assumes "2 ^ k \<le> \<bar>x\<bar>" and "\<bar>x\<bar> < 2 * 2 ^ k" and "k \<le> 52"
  shows "round_double x = of_int (round_even (x * 2 ^ (52 - k))) / 2 ^ (52 - k)"
proof -
  have a: "(2::real) powr of_int (int k) = 2 ^ k"
    using two_powr_nat [of k] by simp
  have "(2::real) powr (of_int (int k) + 1) = 2 powr of_int (int k) * 2 powr 1"
    by (rule powr_add)
  then have b: "(2::real) powr (of_int (int k) + 1) = 2 * 2 ^ k"
    unfolding a by simp
  have "of_int (int k) - 52 = - real (52 - k)" using assms(3) by simp
  then have c: "(2::real) powr (of_int (int k) - 52) = 1 / 2 ^ (52 - k)"
    by (simp only: two_powr_neg_nat)
  from round_double_binade [of "int k" x] assms(1,2) show ?thesis
    unfolding a b c by simp
qed

text \<open>
  Three literals as the doubles they denote: \<open>0.95\<close>, \<open>0.7142857142857143\<close> and
  \<open>0.1\<close>.
\<close>

lemma round_double_literals:
  "round_double (95 / 100) = 4278419646001971 / 4503599627370496"
  "round_double (7142857142857143 / 10000000000000000) = 6433713753386423 / 9007199254740992"
  "round_double (1 / 10) = 3602879701896397 / 36028797018963968"
  using round_double_below [of 1 "95 / 100"]
    round_double_below [of 1 "7142857142857143 / 10000000000000000"]
    round_double_below [of 4 "1 / 10"]
  by (simp_all add: round_even_def Let_def)

text \<open>The two clamps of the code keep the index inside the array, whatever the floor.\<close>

lemma VaR_index_less: "0 < n \<Longrightarrow> VaR_index n c < n"
  unfolding VaR_index_def by linarith

lemma clamp_int:
  assumes "0 < n"
  shows "int (nat (min (max z 0) (int n - 1)))
           = (if z < 0 then 0 else if int n \<le> z then int n - 1 else z)"
  using assms by (cases "z < 0"; cases "int n \<le> z"; simp add: min_def max_def)

lemma VaR_index_cases:
  assumes "0 < n"
  shows "int (VaR_index n c) =
     (let z = Math_floor (round_double (round_double (1 - c) * real n))
      in if z < 0 then 0 else if int n \<le> z then int n - 1 else z)"
  unfolding VaR_index_def Math_floor_def Let_def using assms by (rule clamp_int)

lemma calculateVaR_Num:
  assumes "rs \<noteq> []"
  shows "calculateVaR (map Num rs) c = Num (100 * \<bar>sort rs ! VaR_index (length rs) c\<bar>)"
proof -
  have n: "0 < length rs" using assms by simp
  note lt = VaR_index_less [OF n, of c]
  have g: "get (map Num (sort rs)) (int (VaR_index (length rs) c))
          = Num (sort rs ! VaR_index (length rs) c)"
    using lt by (simp add: get_def)
  have "calculateVaR (map Num rs) c
      = \<bar>get (map Num (sort rs)) (int (VaR_index (length rs) c))\<bar> * Num 100"
    using assms
    by (simp add: calculateVaR_def Let_def sort_by_Num VaR_index_cases [OF n])
  then show ?thesis by (simp add: g)
qed

lemma VaR_index_exact:
  assumes "rs \<noteq> []" and "0 < c" and "c < 1"
    and "round_double (1 - c) = 1 - c"
    and "round_double ((1 - c) * real (length rs)) = (1 - c) * real (length rs)"
  shows "VaR_index (length rs) c = quantile_index rs c"
proof -
  have n: "0 < real (length rs)" using assms(1) by simp
  then have "0 \<le> (1 - c) * real (length rs)" using assms(2,3) by simp
  then have lo: "0 \<le> \<lfloor>(1 - c) * real (length rs)\<rfloor>" by simp
  have "(1 - c) * real (length rs) < 1 * real (length rs)"
    using n assms(2,3) by (intro mult_strict_right_mono) simp_all
  then have "(1 - c) * real (length rs) < of_int (int (length rs))" by simp
  then have up: "\<lfloor>(1 - c) * real (length rs)\<rfloor> < int (length rs)"
    by (simp only: floor_less_iff)
  from lo up show ?thesis
    unfolding VaR_index_def quantile_index_def assms(4) assms(5) by linarith
qed

text \<open>
  C7, as the code has it: on the empty list \<open>calculateVaR\<close> returns \<open>0\<close>; on a non-empty
  list of finite returns it returns 100 times the absolute value of the return at index
  \<open>floor ((1 - c) * n)\<close> of the ascending returns, where the difference and the product
  are each rounded to the nearest double and the floor is clamped to the array. That is
  the negated return (the historical Value-at-Risk) when the return is not positive,
  and the index is \<open>floor ((1 - c) * n)\<close> on exact reals when \<open>0 < c < 1\<close> and neither
  operation rounds.
\<close>

theorem calculateVaR_absolute_quantile:
  "calculateVaR [] c = Num 0 \<and>
   (rs \<noteq> [] \<longrightarrow>
      (let n = length rs;
           i = nat (min (max \<lfloor>round_double (round_double (1 - c) * real n)\<rfloor> 0) (int n - 1))
       in i < n \<and>
          calculateVaR (map Num rs) c = Num (100 * \<bar>sort rs ! i\<bar>) \<and>
          (sort rs ! i \<le> 0 \<longrightarrow> calculateVaR (map Num rs) c = Num (100 * - (sort rs ! i))) \<and>
          (0 < c \<and> c < 1 \<and> round_double (1 - c) = 1 - c \<and>
           round_double ((1 - c) * real n) = (1 - c) * real n \<longrightarrow>
             i = nat \<lfloor>(1 - c) * real n\<rfloor>)))"
proof (intro conjI impI)
  show "calculateVaR [] c = Num 0" by (simp add: calculateVaR_def)
next
  assume ne: "rs \<noteq> []"
  let ?i = "VaR_index (length rs) c"
  have 1: "?i < length rs" using ne by (intro VaR_index_less) simp
  have 2: "calculateVaR (map Num rs) c = Num (100 * \<bar>sort rs ! ?i\<bar>)"
    using ne by (rule calculateVaR_Num)
  have 3: "calculateVaR (map Num rs) c = Num (100 * - (sort rs ! ?i))" if "sort rs ! ?i \<le> 0"
    using that 2 by simp
  have 4: "?i = nat \<lfloor>(1 - c) * real (length rs)\<rfloor>"
    if "0 < c \<and> c < 1 \<and> round_double (1 - c) = 1 - c \<and>
        round_double ((1 - c) * real (length rs)) = (1 - c) * real (length rs)"
    using VaR_index_exact [OF ne, of c] that by (simp add: quantile_index_def)
  from 1 2 3 4 show "let n = length rs;
           i = nat (min (max \<lfloor>round_double (round_double (1 - c) * real n)\<rfloor> 0) (int n - 1))
       in i < n \<and>
          calculateVaR (map Num rs) c = Num (100 * \<bar>sort rs ! i\<bar>) \<and>
          (sort rs ! i \<le> 0 \<longrightarrow> calculateVaR (map Num rs) c = Num (100 * - (sort rs ! i))) \<and>
          (0 < c \<and> c < 1 \<and> round_double (1 - c) = 1 - c \<and>
           round_double ((1 - c) * real n) = (1 - c) * real n \<longrightarrow>
             i = nat \<lfloor>(1 - c) * real n\<rfloor>)"
    unfolding Let_def VaR_index_def by blast
qed

theorem calculateVaR_absolute_quantile_witness:
  "calculateVaR (map Num [3 / 100, - (2 / 100), 1 / 100]) (1 / 2) = Num 1 \<and>
   calculateVaR (map Num [3 / 100, - (2 / 100), 1 / 100]) (3 / 4) = Num 2 \<and>
   nat (min (max \<lfloor>round_double (round_double (1 - 3 / 4) * 3)\<rfloor> 0) (3 - 1))
     = nat \<lfloor>(1 - 3 / 4) * (3 :: real)\<rfloor>"
proof -
  have r1: "round_double (1 / 2) = 1 / 2"
    using round_double_below [of 1 "1 / 2"] by (simp add: round_even_def Let_def)
  have r2: "round_double (3 / 2) = 3 / 2"
    using round_double_above [of 0 "3 / 2"] by (simp add: round_even_def Let_def)
  have r3: "round_double (1 / 4) = 1 / 4"
    using round_double_below [of 2 "1 / 4"] by (simp add: round_even_def Let_def)
  have r4: "round_double (3 / 4) = 3 / 4"
    using round_double_below [of 1 "3 / 4"] by (simp add: round_even_def Let_def)
  have f1: "\<lfloor>3 / 2 :: real\<rfloor> = 1" and f2: "\<lfloor>3 / 4 :: real\<rfloor> = 0" by linarith+
  have ne: "[3 / 100, - (2 / 100), 1 / 100 :: real] \<noteq> []" by simp
  note t1 = calculateVaR_absolute_quantile [of "1 / 2" "[3 / 100, - (2 / 100), 1 / 100]",
      THEN conjunct2, rule_format, OF ne, unfolded Let_def]
  note t2 = calculateVaR_absolute_quantile [of "3 / 4" "[3 / 100, - (2 / 100), 1 / 100]",
      THEN conjunct2, rule_format, OF ne, unfolded Let_def]
  from t1 have "calculateVaR (map Num [3 / 100, - (2 / 100), 1 / 100]) (1 / 2) = Num 1"
    by (simp add: r1 r2 f1)
  moreover from t2 have "calculateVaR (map Num [3 / 100, - (2 / 100), 1 / 100]) (3 / 4) = Num 2"
    by (simp add: r3 r4 f2)
  moreover from t2 have "nat (min (max \<lfloor>round_double (round_double (1 - 3 / 4) * 3)\<rfloor> 0) (3 - 1))
     = nat \<lfloor>(1 - 3 / 4) * (3 :: real)\<rfloor>"
    by (simp add: r3 r4 f2)
  ultimately show ?thesis by simp
qed

text \<open>
  The claim as worded fails twice. On the single return \<open>0.01\<close> with the confidence
  \<open>0.95\<close> the code reports \<open>1\<close>, the negated return is \<open>-1\<close>. On the seven returns
  \<open>-7, ..., -1\<close> with the double written \<open>0.7142857142857143\<close> the product
  \<open>(1 - c) * 7\<close> rounds up to \<open>2\<close>: the code reads index 2 and reports \<open>500\<close>, where
  the floor of the exact product is 1 and the negated return there is \<open>600\<close>.
\<close>

theorem calculateVaR_negation_counterexample:
  "calculateVaR (map Num [1 / 100]) (4278419646001971 / 4503599627370496) = Num 1 \<and>
   historical_VaR [1 / 100] (4278419646001971 / 4503599627370496) = - 1 \<and>
   calculateVaR (map Num [1 / 100]) (4278419646001971 / 4503599627370496)
     \<noteq> Num (historical_VaR [1 / 100] (4278419646001971 / 4503599627370496)) \<and>
   calculateVaR (map Num [- 7, - 6, - 5, - 4, - 3, - 2, - 1])
     (6433713753386423 / 9007199254740992) = Num 500 \<and>
   historical_VaR [- 7, - 6, - 5, - 4, - 3, - 2, - 1]
     (6433713753386423 / 9007199254740992) = 600"
proof -
  have i0: "VaR_index (length [1 / 100 :: real]) c = 0" for c
    using VaR_index_less [of "length [1 / 100 :: real]" c] by simp
  have a: "calculateVaR (map Num [1 / 100]) (4278419646001971 / 4503599627370496) = Num 1"
    using calculateVaR_Num [of "[1 / 100]" "4278419646001971 / 4503599627370496"]
    unfolding i0 by simp
  have fa: "\<lfloor>225179981368525 / 4503599627370496 :: real\<rfloor> = 0" by linarith
  have b: "historical_VaR [1 / 100] (4278419646001971 / 4503599627370496) = - 1"
    by (simp add: historical_VaR_def quantile_index_def fa)
  have r1: "round_double (2573485501354569 / 9007199254740992)
      = 2573485501354569 / 9007199254740992"
    using round_double_below [of 2 "2573485501354569 / 9007199254740992"]
    by (simp add: round_even_def Let_def)
  have r2: "round_double (18014398509481983 / 9007199254740992) = 2"
    using round_double_above [of 0 "18014398509481983 / 9007199254740992"]
    by (simp add: round_even_def Let_def)
  have i7: "VaR_index (length [- 7, - 6, - 5, - 4, - 3, - 2, - 1 :: real])
      (6433713753386423 / 9007199254740992) = 2"
    by (simp add: VaR_index_def r1 r2)
  have c: "calculateVaR (map Num [- 7, - 6, - 5, - 4, - 3, - 2, - 1])
      (6433713753386423 / 9007199254740992) = Num 500"
    using calculateVaR_Num [of "[- 7, - 6, - 5, - 4, - 3, - 2, - 1]"
        "6433713753386423 / 9007199254740992"]
    unfolding i7 by simp
  have fb: "\<lfloor>18014398509481983 / 9007199254740992 :: real\<rfloor> = 1" by linarith
  have d: "historical_VaR [- 7, - 6, - 5, - 4, - 3, - 2, - 1]
      (6433713753386423 / 9007199254740992) = 600"
    by (simp add: historical_VaR_def quantile_index_def fb)
  from a b c d show ?thesis by simp
qed

section \<open>Maximum drawdown of RiskAnalysis\<close>

lemma peak_ref_0: "cs \<noteq> [] \<Longrightarrow> peak_ref cs 0 = cs ! 0"
  by (cases cs) (simp_all add: peak_ref_def)

lemma peak_ref_Suc:
  assumes "Suc i < length cs"
  shows "peak_ref cs (Suc i) = max (peak_ref cs i) (cs ! Suc i)"
proof -
  have "take (Suc (Suc i)) cs = take (Suc i) cs @ [cs ! Suc i]"
    using assms by (rule take_Suc_conv_app_nth)
  moreover have "set (take (Suc i) cs) \<noteq> {}" using assms by auto
  ultimately show ?thesis
    unfolding peak_ref_def by (simp add: max.commute)
qed

lemma Max_drawdown_Suc:
  assumes "0 < k"
  shows "Max (f ` {..<Suc k}) = max (Max (f ` {..<k})) (f k :: real)"
proof -
  have "finite (f ` {..<k})" and "f ` {..<k} \<noteq> {}" using assms by auto
  then have "Max (insert (f k) (f ` {..<k})) = max (f k) (Max (f ` {..<k}))"
    by (rule Max_insert)
  then show ?thesis by (simp add: lessThan_Suc max.commute)
qed

lemma drawdown_loop:
  assumes closes: "\<And>i. i < length cs \<Longrightarrow> close (data ! i) = Num (cs ! i)"
    and peaks: "\<And>i. i < length cs \<Longrightarrow> peak_ref cs i \<noteq> 0"
    and k: "0 < k" "k \<le> length cs"
  shows "foldl (drawdown_step data) (Num 0, close (data ! 0)) [1..<k]
           = (Num (Max (drawdown_ref cs ` {..<k})), Num (peak_ref cs (k - 1)))"
  using k
proof (induction k)
  case 0
  then show ?case by simp
next
  case (Suc k)
  show ?case
  proof (cases "k = 0")
    case True
    with Suc.prems have "cs \<noteq> []" by auto
    with True closes [of 0] show ?thesis
      by (simp add: peak_ref_0 drawdown_ref_def lessThan_Suc)
  next
    case False
    with Suc have IH: "foldl (drawdown_step data) (Num 0, close (data ! 0)) [1..<k]
        = (Num (Max (drawdown_ref cs ` {..<k})), Num (peak_ref cs (k - 1)))"
      by simp
    from False obtain j where j: "k = Suc j" by (cases k) auto
    have pk: "peak_ref cs k = max (peak_ref cs j) (cs ! k)"
      using peak_ref_Suc [of j cs] Suc.prems j by simp
    have nz: "peak_ref cs k \<noteq> 0" using peaks [of k] Suc.prems by simp
    have step: "drawdown_step data (Num m, Num (peak_ref cs j)) k
        = (Num (max m (drawdown_ref cs k)), Num (peak_ref cs k))" for m
      using closes [of k] Suc.prems nz
      by (auto simp: drawdown_step_def Let_def pk drawdown_ref_def max_def)
    have "[1..<Suc k] = [1..<k] @ [k]" using False by simp
    then have "foldl (drawdown_step data) (Num 0, close (data ! 0)) [1..<Suc k]
        = drawdown_step data (Num (Max (drawdown_ref cs ` {..<k})), Num (peak_ref cs j)) k"
      using IH j by simp
    also have "\<dots> = (Num (max (Max (drawdown_ref cs ` {..<k})) (drawdown_ref cs k)),
        Num (peak_ref cs k))"
      by (rule step)
    also have "max (Max (drawdown_ref cs ` {..<k})) (drawdown_ref cs k)
        = Max (drawdown_ref cs ` {..<Suc k})"
      using False by (simp add: Max_drawdown_Suc)
    finally show ?thesis by simp
  qed
qed

lemma calculateMaxDrawdown_Num:
  assumes "map close data = map Num cs" and "\<forall>i<length cs. peak_ref cs i \<noteq> 0"
  shows "calculateMaxDrawdown data =
     (if length cs < 2 then Num 0 else Num (max_drawdown_ref cs))"
proof -
  have len: "length data = length cs"
    using assms(1) by (metis length_map)
  have c: "close (data ! i) = Num (cs ! i)" if "i < length cs" for i
    using assms(1) that len by (metis nth_map)
  show ?thesis
  proof (cases "length cs < 2")
    case True
    then show ?thesis by (simp add: calculateMaxDrawdown_def len)
  next
    case False
    then have "0 < length cs" by linarith
    from drawdown_loop [of cs data "length cs", OF c _ this] assms(2) False
    show ?thesis
      by (simp add: calculateMaxDrawdown_def len max_drawdown_ref_def mult.commute)
  qed
qed

text \<open>
  C8: on a series of at least two finite closes whose running peaks are non-zero (as
  they are for prices), \<open>calculateMaxDrawdown\<close> returns the maximum drawdown in percent,
  100 times the maximum over all indices \<open>i\<close> of \<open>(peak\<^sub>i - close\<^sub>i) / peak\<^sub>i\<close> with
  \<open>peak\<^sub>i\<close> the running maximum of the closes up to and including \<open>i\<close>; on fewer than two
  rows it returns \<open>0\<close>.
\<close>

theorem calculateMaxDrawdown_textbook:
  assumes "map close data = map Num cs" and "\<forall>i<length cs. Max (set (take (Suc i) cs)) \<noteq> 0"
  shows "calculateMaxDrawdown data =
     (if length cs < 2 then Num 0
      else Num (100 * Max ((\<lambda>i. (Max (set (take (Suc i) cs)) - cs ! i)
                                   / Max (set (take (Suc i) cs))) ` {..<length cs})))"
  using calculateMaxDrawdown_Num [of data cs] assms
  by (simp add: max_drawdown_ref_def drawdown_ref_def peak_ref_def)

theorem calculateMaxDrawdown_textbook_witness:
  "calculateMaxDrawdown
     [\<lparr>time = ''d1'', close = Num 10, price = Num 10\<rparr>,
      \<lparr>time = ''d2'', close = Num 5, price = Num 5\<rparr>,
      \<lparr>time = ''d3'', close = Num 20, price = Num 20\<rparr>,
      \<lparr>time = ''d4'', close = Num 15, price = Num 15\<rparr>] = Num 50"
proof -
  have s: "{..<4::nat} = {0, 1, 2, 3}" by auto
  have a: "\<forall>i<length [10, 5, 20, 15 :: real]. Max (set (take (Suc i) [10, 5, 20, 15 :: real])) \<noteq> 0"
    by (simp add: s less_Suc_eq)
  from calculateMaxDrawdown_textbook [of
      "[\<lparr>time = ''d1'', close = Num 10, price = Num 10\<rparr>,
        \<lparr>time = ''d2'', close = Num 5, price = Num 5\<rparr>,
        \<lparr>time = ''d3'', close = Num 20, price = Num 20\<rparr>,
        \<lparr>time = ''d4'', close = Num 15, price = Num 15\<rparr>]" "[10, 5, 20, 15]", OF _ a]
  show ?thesis by (simp add: lessThan_Suc)
qed

section \<open>Bollinger bands of TechnicalIndicators.tsx\<close>

lemma slice_window:
  assumes "p \<le> i + 1" and "i < length xs"
  shows "slice xs (int i - int p + 1) (int i + 1) = take p (drop (i + 1 - p) xs)"
proof -
  have k: "nat (int i - int p + 1) = i + 1 - p" using assms by linarith
  have d: "nat (int i + 1 - (int i - int p + 1)) = p" by simp
  have "min (int i - int p + 1) (int (length xs)) = int i - int p + 1"
    and "min (int i + 1) (int (length xs)) = int i + 1"
    and "\<not> int i - int p + 1 < 0" and "\<not> int i + 1 < 0"
    using assms by linarith+
  then show ?thesis
    unfolding slice_def Let_def by (simp only: if_False k d)
qed

lemma slice_window_Num:
  assumes "p \<le> i + 1" and "i < length ps"
  shows "slice (map Num ps) (int i - int p + 1) (int i + 1) = map Num (window ps p i)"
  using slice_window [of p i "map Num ps"] assms
  by (simp add: window_def take_map drop_map)

lemma TI_calculateSMA_nth:
  assumes "1 \<le> p" and "i < length ps"
  shows "TI_calculateSMA (map Num ps) p ! i =
     (if i + 1 < p then NaN else Num (sma_ref ps p i))"
proof (cases "i + 1 < p")
  case True
  with assms show ?thesis by (simp add: TI_calculateSMA_def)
next
  case False
  then have w: "slice (map Num ps) (int i - int p + 1) (int i + 1) = map Num (window ps p i)"
    using assms by (intro slice_window_Num) simp_all
  from False have "\<not> int i < int p - 1" by linarith
  with False assms show ?thesis
    by (simp add: TI_calculateSMA_def w reduce_sum_Num sma_ref_def)
qed

lemma stddev_arg_nonneg: "0 \<le> (\<Sum>x\<leftarrow>xs. (x - m)\<^sup>2) / real p"
  by (intro divide_nonneg_nonneg sum_list_nonneg) auto

lemma bollinger_band_Num:
  assumes "1 \<le> p" and "p \<le> i + 1" and "i < length ps"
  shows "Math_sqrt (foldl (\<lambda>sum price. sum
                + Math_pow (price - get (TI_calculateSMA (map Num ps) p) (int i)) 2) (Num 0)
              (slice (map Num ps) (int i - int p + 1) (int i + 1)) / Num (real p)) * Num w
         = Num (stddev_ref ps p i * w)"
proof -
  have w: "slice (map Num ps) (int i - int p + 1) (int i + 1) = map Num (window ps p i)"
    using assms by (intro slice_window_Num)
  have m: "get (TI_calculateSMA (map Num ps) p) (int i) = Num (sma_ref ps p i)"
    using assms TI_calculateSMA_nth [of p i ps]
    by (simp add: get_def length_TI_calculateSMA)
  have p: "real p \<noteq> 0" using assms by simp
  show ?thesis
    unfolding w m foldl_squares_Num
    using p stddev_arg_nonneg [of "sma_ref ps p i" "window ps p i" p]
    by (simp add: stddev_ref_def)
qed

lemma bollinger_nth:
  assumes "1 \<le> p" and "i < length ps"
  shows "upper (TI_calculateBollingerBands (map Num ps) p (Num w)) ! i =
           (if i + 1 < p then NaN else Num (sma_ref ps p i + stddev_ref ps p i * w))"
    and "lower (TI_calculateBollingerBands (map Num ps) p (Num w)) ! i =
           (if i + 1 < p then NaN else Num (sma_ref ps p i - stddev_ref ps p i * w))"
    and "middle (TI_calculateBollingerBands (map Num ps) p (Num w)) ! i =
           (if i + 1 < p then NaN else Num (sma_ref ps p i))"
proof -
  have m: "get (TI_calculateSMA (map Num ps) p) (int i) =
      (if i + 1 < p then NaN else Num (sma_ref ps p i))"
    using assms TI_calculateSMA_nth [of p i ps]
    by (simp add: get_def length_TI_calculateSMA)
  have c: "(int i < int p - 1) = (i + 1 < p)" by linarith
  show "upper (TI_calculateBollingerBands (map Num ps) p (Num w)) ! i =
           (if i + 1 < p then NaN else Num (sma_ref ps p i + stddev_ref ps p i * w))"
  proof (cases "i + 1 < p")
    case True
    with assms c show ?thesis by (simp add: TI_calculateBollingerBands_def Let_def)
  next
    case False
    then have "p \<le> i + 1" by simp
    from bollinger_band_Num [OF assms(1) this assms(2), of w] False assms c m
    show ?thesis by (simp add: TI_calculateBollingerBands_def Let_def)
  qed
  show "lower (TI_calculateBollingerBands (map Num ps) p (Num w)) ! i =
           (if i + 1 < p then NaN else Num (sma_ref ps p i - stddev_ref ps p i * w))"
  proof (cases "i + 1 < p")
    case True
    with assms c show ?thesis by (simp add: TI_calculateBollingerBands_def Let_def)
  next
    case False
    then have "p \<le> i + 1" by simp
    from bollinger_band_Num [OF assms(1) this assms(2), of w] False assms c m
    show ?thesis by (simp add: TI_calculateBollingerBands_def Let_def)
  qed
  show "middle (TI_calculateBollingerBands (map Num ps) p (Num w)) ! i =
           (if i + 1 < p then NaN else Num (sma_ref ps p i))"
    using assms TI_calculateSMA_nth [of p i ps]
    by (simp add: TI_calculateBollingerBands_def Let_def)
qed

text \<open>
  C5: for finite prices, a period \<open>p \<ge> 1\<close> and a finite width \<open>w\<close>,
  \<open>calculateBollingerBands\<close> returns as \<open>middle\<close> the simple moving average of
  \<open>calculateSMA\<close>: at each index \<open>i \<ge> p - 1\<close> the arithmetic mean of the \<open>p\<close> prices
  ending at \<open>i\<close>; \<open>upper\<close> and \<open>lower\<close> are there that mean plus and minus \<open>w\<close> times the
  standard deviation of the window about the mean with denominator \<open>p\<close>; all three are
  \<open>NaN\<close> at the indices before \<open>p - 1\<close>.
\<close>

theorem calculateBollingerBands_spec:
  assumes "1 \<le> p"
  shows "let b = TI_calculateBollingerBands (map Num ps) p (Num w) in
     middle b = TI_calculateSMA (map Num ps) p \<and>
     (\<forall>i<length ps.
        if i + 1 < p then middle b ! i = NaN \<and> upper b ! i = NaN \<and> lower b ! i = NaN
        else
          let win = take p (drop (i + 1 - p) ps);
              mean = sum_list win / real p;
              sd = sqrt ((\<Sum>x\<leftarrow>win. (x - mean)\<^sup>2) / real p)
          in middle b ! i = Num mean \<and> upper b ! i = Num (mean + sd * w) \<and>
             lower b ! i = Num (mean - sd * w))"
proof -
  have "middle (TI_calculateBollingerBands (map Num ps) p (Num w)) = TI_calculateSMA (map Num ps) p"
    by (simp add: TI_calculateBollingerBands_def Let_def)
  then show ?thesis
    unfolding Let_def
    using bollinger_nth [OF assms, of _ ps w]
    by (simp add: sma_ref_def stddev_ref_def window_def)
qed

theorem calculateBollingerBands_spec_witness:
  "upper (TI_calculateBollingerBands (map Num [1, 5, 9]) 2 (Num 2)) ! 0 = NaN \<and>
   middle (TI_calculateBollingerBands (map Num [1, 5, 9]) 2 (Num 2)) ! 1 = Num 3 \<and>
   upper (TI_calculateBollingerBands (map Num [1, 5, 9]) 2 (Num 2)) ! 1 = Num 7 \<and>
   lower (TI_calculateBollingerBands (map Num [1, 5, 9]) 2 (Num 2)) ! 1 = Num (- 1) \<and>
   middle (TI_calculateBollingerBands (map Num [1, 5, 9]) 2 (Num 2)) ! 2 = Num 7 \<and>
   upper (TI_calculateBollingerBands (map Num [1, 5, 9]) 2 (Num 2)) ! 2 = Num 11 \<and>
   lower (TI_calculateBollingerBands (map Num [1, 5, 9]) 2 (Num 2)) ! 2 = Num 3"
proof -
  have a: "(1::nat) \<le> 2" by simp
  have s: "sqrt 4 = 2" using real_sqrt_abs [of 2] by simp
  note t = calculateBollingerBands_spec [OF a, of "[1, 5, 9]" 2, unfolded Let_def,
      THEN conjunct2, rule_format]
  from t [of 0] t [of 1] t [of 2] show ?thesis
    by (simp add: s power2_eq_square)
qed

section \<open>MACD of TechnicalIndicators.tsx\<close>

lemma macd_nth:
  assumes "i < length P"
  shows "macd (TI_calculateMACD P) ! i =
     (if isNaN (TI_calculateEMA P 12 ! i) \<or> isNaN (TI_calculateEMA P 26 ! i) then NaN
      else TI_calculateEMA P 12 ! i - TI_calculateEMA P 26 ! i)"
proof -
  have "get (TI_calculateEMA P 26) (int i) = TI_calculateEMA P 26 ! i"
    using assms by (simp add: get_def length_TI_calculateEMA)
  with assms show ?thesis
    by (simp add: TI_calculateMACD_def Let_def length_TI_calculateEMA)
qed

lemma TI_calculateEMA_isNaN:
  assumes "1 \<le> p" and "i < length ps"
  shows "isNaN (TI_calculateEMA (map Num ps) p ! i) = (i + 1 < p)"
proof (cases "i + 1 < p")
  case True
  then show ?thesis
    using assms TI_calculateEMA_NaN [of i p "map Num ps"] by (simp add: isNaN_def)
next
  case False
  then have "p - 1 \<le> i" by simp
  from TI_calculateEMA_finite [OF assms(1) this assms(2)] False show ?thesis
    by (simp add: isNaN_def)
qed

lemma macd_finite:
  assumes "i < length ps"
  shows "macd (TI_calculateMACD (map Num ps)) ! i =
     (if i < 25 then NaN else Num (ema_ref ps 12 i - ema_ref ps 26 i))"
proof (cases "i < 25")
  case True
  then have "isNaN (TI_calculateEMA (map Num ps) 26 ! i)"
    using assms by (simp add: TI_calculateEMA_isNaN)
  with True assms show ?thesis by (simp add: macd_nth)
next
  case False
  have "TI_calculateEMA (map Num ps) 12 ! i = Num (ema_ref ps 12 i)"
    and "TI_calculateEMA (map Num ps) 26 ! i = Num (ema_ref ps 26 i)"
    using assms False by (simp_all add: TI_calculateEMA_finite)
  with False assms show ?thesis by (simp add: macd_nth isNaN_def)
qed

lemma macd_valid:
  "filter (\<lambda>val. \<not> isNaN val) (macd (TI_calculateMACD (map Num ps)))
     = drop 25 (macd (TI_calculateMACD (map Num ps)))"
proof -
  let ?m = "macd (TI_calculateMACD (map Num ps))"
  have len: "length ?m = length ps" by (simp add: length_macd)
  have "\<forall>x\<in>set (take 25 ?m). \<not> \<not> isNaN x"
  proof
    fix x assume "x \<in> set (take 25 ?m)"
    then obtain i where i: "i < length (take 25 ?m)" and x: "x = take 25 ?m ! i"
      by (metis in_set_conv_nth)
    then have "x = ?m ! i" and "i < 25" and "i < length ps" using len by simp_all
    then show "\<not> \<not> isNaN x" by (simp add: macd_finite isNaN_def)
  qed
  then have a: "filter (\<lambda>val. \<not> isNaN val) (take 25 ?m) = []"
    by (simp only: filter_False)
  have "\<forall>x\<in>set (drop 25 ?m). \<not> isNaN x"
  proof
    fix x assume "x \<in> set (drop 25 ?m)"
    then obtain i where i: "i < length (drop 25 ?m)" and x: "x = drop 25 ?m ! i"
      by (metis in_set_conv_nth)
    then have "x = ?m ! (25 + i)" and "25 + i < length ps" using len by simp_all
    then show "\<not> isNaN x" by (simp add: macd_finite isNaN_def)
  qed
  then have b: "filter (\<lambda>val. \<not> isNaN val) (drop 25 ?m) = drop 25 ?m"
    by (simp only: filter_True)
  have "filter (\<lambda>val. \<not> isNaN val) ?m
      = filter (\<lambda>val. \<not> isNaN val) (take 25 ?m) @ filter (\<lambda>val. \<not> isNaN val) (drop 25 ?m)"
    by (simp only: filter_append [symmetric] append_take_drop_id)
  with a b show ?thesis by simp
qed

lemma signal_finite:
  "signal (TI_calculateMACD (map Num ps))
     = replicate (min 25 (length ps)) NaN
         @ TI_calculateEMA (drop 25 (macd (TI_calculateMACD (map Num ps)))) 9"
proof -
  have "length (macd (TI_calculateMACD (map Num ps))) - (length ps - 25) = min 25 (length ps)"
    by (simp add: length_macd)
  then show ?thesis
    unfolding signal_padding [of "map Num ps"] macd_valid
    by (simp add: length_TI_calculateEMA length_macd)
qed

text \<open>
  C4: on finite prices \<open>calculateMACD\<close> returns a \<open>macd\<close> array and a \<open>signal\<close> array of
  the input's length. The 12-period and 26-period averages are both defined from index
  25 on; there \<open>macd\<close> is their difference, and before it \<open>NaN\<close>. \<open>signal\<close> is the
  9-period \<open>calculateEMA\<close> of the defined \<open>macd\<close> entries, behind one \<open>NaN\<close> for each
  undefined entry.
\<close>

theorem calculateMACD_spec:
  "let r = TI_calculateMACD (map Num ps);
       ema12 = TI_calculateEMA (map Num ps) 12;
       ema26 = TI_calculateEMA (map Num ps) 26
   in length (macd r) = length ps \<and> length (signal r) = length (macd r) \<and>
      (\<forall>i<length ps.
         (isNaN (ema12 ! i) \<or> isNaN (ema26 ! i)) = (i < 25) \<and>
         macd r ! i = (if i < 25 then NaN else ema12 ! i - ema26 ! i) \<and>
         (25 \<le> i \<longrightarrow> macd r ! i = Num (ema_ref ps 12 i - ema_ref ps 26 i))) \<and>
      signal r = replicate (min 25 (length ps)) NaN @ TI_calculateEMA (drop 25 (macd r)) 9"
proof -
  let ?r = "TI_calculateMACD (map Num ps)"
  let ?e12 = "TI_calculateEMA (map Num ps) 12" and ?e26 = "TI_calculateEMA (map Num ps) 26"
  have A: "length (macd ?r) = length ps" by (simp only: length_macd length_map)
  have B: "length (signal ?r) = length (macd ?r)"
    by (simp only: length_macd length_signal)
  have C: "\<forall>i<length ps.
         (isNaN (?e12 ! i) \<or> isNaN (?e26 ! i)) = (i < 25) \<and>
         macd ?r ! i = (if i < 25 then NaN else ?e12 ! i - ?e26 ! i) \<and>
         (25 \<le> i \<longrightarrow> macd ?r ! i = Num (ema_ref ps 12 i - ema_ref ps 26 i))"
  proof (intro allI impI conjI)
    fix i assume i: "i < length ps"
    then show nan: "(isNaN (?e12 ! i) \<or> isNaN (?e26 ! i)) = (i < 25)"
      by (auto simp: TI_calculateEMA_isNaN)
    from i have "i < length (map Num ps)" by simp
    from macd_nth [OF this] nan
    show "macd ?r ! i = (if i < 25 then NaN else ?e12 ! i - ?e26 ! i)" by simp
    assume "25 \<le> i"
    with macd_finite [OF i] show "macd ?r ! i = Num (ema_ref ps 12 i - ema_ref ps 26 i)"
      by simp
  qed
  have D: "signal ?r = replicate (min 25 (length ps)) NaN @ TI_calculateEMA (drop 25 (macd ?r)) 9"
    by (rule signal_finite)
  from A B C D show ?thesis unfolding Let_def by (intro conjI)
qed

theorem calculateMACD_spec_witness:
  "isNaN (macd (TI_calculateMACD (map Num (replicate 27 5))) ! 24) \<and>
   macd (TI_calculateMACD (map Num (replicate 27 5))) ! 26 = Num 0 \<and>
   take 25 (signal (TI_calculateMACD (map Num (replicate 27 5)))) = replicate 25 NaN"
proof -
  have e: "ema_ref (replicate 27 5) p i = 5" if "0 < p" and "p \<le> 27" and "i < 27" for p i
    using that by (induction i) (simp_all add: sum_list_replicate algebra_simps)
  note t = calculateMACD_spec [of "replicate 27 5", unfolded Let_def]
  note n = t [THEN conjunct2, THEN conjunct2, THEN conjunct1, rule_format]
  have m24: "macd (TI_calculateMACD (map Num (replicate 27 5))) ! 24 = NaN"
    using n [of 24] by simp
  have m26: "macd (TI_calculateMACD (map Num (replicate 27 5))) ! 26 = Num 0"
    using n [of 26, THEN conjunct2, THEN conjunct2] by (simp add: e)
  have sig: "take 25 (signal (TI_calculateMACD (map Num (replicate 27 5)))) = replicate 25 NaN"
    using t [THEN conjunct2, THEN conjunct2, THEN conjunct2] by simp
  from m24 m26 sig show ?thesis by (simp add: isNaN_def)
qed

section \<open>The relative strength index of TechnicalIndicators.tsx\<close>

lemma length_price_gains: "length (price_gains P) = length P - 1"
  and length_price_losses: "length (price_losses P) = length P - 1"
  by (simp_all add: price_gains_def price_losses_def)

lemma rsi_value_NaN: "rsi_value NaN NaN = NaN"
  by (simp add: rsi_value_def minus_number_def)

lemma TI_calculateRSI_nth:
  assumes "i < length P"
  shows "TI_calculateRSI P p ! i =
     (if i < p then NaN
      else rsi_value (get (TI_calculateEMA (price_gains P) p) (int i - int p))
                     (get (TI_calculateEMA (price_losses P) p) (int i - int p)))"
  using assms by (simp add: TI_calculateRSI_def Let_def)

lemma TI_calculateRSI_gap:
  assumes "p \<le> i" and "i + 1 < 2 * p" and "i < length P"
  shows "TI_calculateRSI P p ! i = NaN"
proof -
  have idx: "int i - int p = int (i - p)" using assms by simp
  have lt: "i - p < length P - 1" using assms by linarith
  have early: "(i - p) + 1 < p" using assms by linarith
  have g: "get (TI_calculateEMA (price_gains P) p) (int i - int p) = NaN"
    unfolding idx using lt early
    by (simp add: get_def length_TI_calculateEMA length_price_gains TI_calculateEMA_NaN)
  have l: "get (TI_calculateEMA (price_losses P) p) (int i - int p) = NaN"
    unfolding idx using lt early
    by (simp add: get_def length_TI_calculateEMA length_price_losses TI_calculateEMA_NaN)
  from assms show ?thesis
    by (simp add: TI_calculateRSI_nth g l rsi_value_NaN)
qed

text \<open>
  C2 fails on the code: with the default period 14 and the fifteen prices 1, 2, ..., 15,
  the entry at index 14 is \<open>NaN\<close>, where the relative strength index over the fourteen
  changes up to index 14 (all gains, no loss) is \<open>100\<close>. The loop reads the averages at
  \<open>i - period\<close>, which is still in the undefined prefix of \<open>calculateEMA\<close>.
\<close>

theorem TI_calculateRSI_lags:
  "TI_calculateRSI (map Num (map real [1..<16])) 14 ! 14 = NaN \<and>
   rsi_ref (map real [1..<16]) 14 14 = 100"
proof -
  have "TI_calculateRSI (map Num (map real [1..<16])) 14 ! 14 = NaN"
    by (rule TI_calculateRSI_gap) simp_all
  moreover have "losses_ref (map real [1..<16]) = replicate 14 0"
    by (simp add: losses_ref_def list_eq_iff_nth_eq)
  then have "ema_ref (losses_ref (map real [1..<16])) 14 13 = 0"
    by (simp add: eval_nat_numeral)
  then have "rsi_ref (map real [1..<16]) 14 14 = 100"
    by (simp add: rsi_ref_def)
  ultimately show ?thesis by simp
qed

section \<open>The three relative strength index routines\<close>

lemma index_sum_take:
  "m \<le> length xs \<Longrightarrow>
     foldl (\<lambda>s i. s + get xs (int i)) a [0..<m] = foldl (+) a (take m xs)"
proof (induction m)
  case 0
  then show ?case by simp
next
  case (Suc m)
  then have "take (Suc m) xs = take m xs @ [xs ! m]"
    by (simp add: take_Suc_conv_app_nth)
  with Suc show ?case by (simp add: get_def)
qed

lemma slice_prefix: "p \<le> length xs \<Longrightarrow> slice xs 0 (int p) = take p xs"
  by (simp add: slice_def Let_def min_absorb1)

lemma seeds_agree:
  assumes "p \<le> length xs"
  shows "foldl (\<lambda>s i. s + get xs (int i)) (Num 0) [0..<min p (length xs)]
           / Num (real (min p (length xs)))
         = reduce_sum (slice xs 0 (int p)) / Num (real p)"
  using assms by (simp add: min_absorb1 index_sum_take slice_prefix reduce_sum_def)

lemma AI_calculateEMA_fold:
  "AI_calculateEMA data period =
     (if length data < period then data
      else snd (foldl (AI_ema_step data (Num 2 / Num (real period + 1)))
                  (reduce_sum (slice data 0 (int period)) / Num (real period),
                   [reduce_sum (slice data 0 (int period)) / Num (real period)])
                  [period..<length data]))"
  by (simp add: AI_calculateEMA_def AI_ema_step_def Let_def)

lemma AI_loop_invariant:
  assumes "1 \<le> p" and "p \<le> k" and "k \<le> length xs"
  shows "foldl (AI_ema_step xs (Num 2 / Num (real p + 1)))
           (reduce_sum (slice xs 0 (int p)) / Num (real p),
            [reduce_sum (slice xs 0 (int p)) / Num (real p)]) [p..<k]
         = (TI_calculateEMA xs p ! (k - 1), drop (p - 1) (take k (TI_calculateEMA xs p)))"
  using assms(2,3)
proof (induction k)
  case 0
  with assms(1) show ?case by simp
next
  case (Suc k)
  let ?T = "TI_calculateEMA xs p"
  have lenT: "length ?T = length xs" by (rule length_TI_calculateEMA)
  show ?case
  proof (cases "p = Suc k")
    case True
    have "p - 1 < length xs" using True Suc.prems by simp
    from TI_calculateEMA_nth [OF this, of p] assms(1)
    have seed: "?T ! (p - 1) = reduce_sum (slice xs 0 (int p)) / Num (real p)"
      using Suc.prems True seeds_agree [of p xs] by (simp add: of_nat_diff)
    have "take (Suc k) ?T = take k ?T @ [?T ! k]"
      using Suc.prems lenT by (simp add: take_Suc_conv_app_nth)
    then have "drop (p - 1) (take (Suc k) ?T) = [?T ! k]"
      using True Suc.prems lenT by simp
    with seed True show ?thesis by simp
  next
    case False
    with Suc.prems have pk: "p \<le> k" and k: "k < length xs" by simp_all
    from Suc.IH [OF pk] k
    have IH: "foldl (AI_ema_step xs (Num 2 / Num (real p + 1)))
           (reduce_sum (slice xs 0 (int p)) / Num (real p),
            [reduce_sum (slice xs 0 (int p)) / Num (real p)]) [p..<k]
         = (?T ! (k - 1), drop (p - 1) (take k ?T))" by simp
    have prev: "get ?T (int k - 1) = ?T ! (k - 1)"
      using pk assms(1) k lenT get_nth [of "k - 1" ?T] by (simp add: of_nat_diff)
    from TI_calculateEMA_nth [OF k, of p] pk assms(1)
    have Tk: "?T ! k = get xs (int k) * (Num 2 / Num (real p + 1))
        + ?T ! (k - 1) * (Num 1 - Num 2 / Num (real p + 1))"
      using prev by simp
    have tk: "take (Suc k) ?T = take k ?T @ [?T ! k]"
      using k lenT by (simp add: take_Suc_conv_app_nth)
    have dk: "drop (p - 1) (take (Suc k) ?T) = drop (p - 1) (take k ?T) @ [?T ! k]"
      unfolding tk using pk k lenT by simp
    let ?f = "AI_ema_step xs (Num 2 / Num (real p + 1))"
    let ?s = "(reduce_sum (slice xs 0 (int p)) / Num (real p),
            [reduce_sum (slice xs 0 (int p)) / Num (real p)])"
    have "[p..<Suc k] = [p..<k] @ [k]" using pk by simp
    then have "foldl ?f ?s [p..<Suc k] = ?f (foldl ?f ?s [p..<k]) k"
      by (simp only: foldl_append foldl.simps)
    also have "\<dots> = ?f (?T ! (k - 1), drop (p - 1) (take k ?T)) k"
      by (simp only: IH)
    also have "\<dots> = (?T ! k, drop (p - 1) (take k ?T) @ [?T ! k])"
      unfolding AI_ema_step_def Tk by (simp add: Let_def)
    finally show ?thesis by (simp only: dk diff_Suc_1)
  qed
qed

lemma AI_calculateEMA_is_TI:
  assumes "1 \<le> p" and "p \<le> length xs"
  shows "AI_calculateEMA xs p = drop (p - 1) (TI_calculateEMA xs p)"
proof -
  from AI_loop_invariant [OF assms(1) assms(2) le_refl] assms(2)
  show ?thesis
    by (simp add: AI_calculateEMA_fold length_TI_calculateEMA)
qed

lemma AI_calculateEMA_last:
  assumes "1 \<le> p" and "p \<le> length xs"
  shows "get (AI_calculateEMA xs p) (int (length (AI_calculateEMA xs p)) - 1)
           = last (TI_calculateEMA xs p)"
proof -
  have ne: "AI_calculateEMA xs p \<noteq> []"
    using assms by (simp add: AI_calculateEMA_is_TI length_TI_calculateEMA)
  have "last (drop (p - 1) (TI_calculateEMA xs p)) = last (TI_calculateEMA xs p)"
    using assms by (intro last_drop) (simp add: length_TI_calculateEMA)
  then show ?thesis
    unfolding get_last [OF ne] by (simp add: AI_calculateEMA_is_TI [OF assms])
qed

lemma AI_calculateRSI_is_TI:
  assumes "1 \<le> p" and "p + 1 \<le> length data"
  shows "AI_calculateRSI data p =
     rsi_value (last (TI_calculateEMA (price_gains (map close data)) p))
               (last (TI_calculateEMA (price_losses (map close data)) p))"
proof -
  have "p \<le> length (price_gains (map close data))"
    and "p \<le> length (price_losses (map close data))"
    using assms by (simp_all add: length_price_gains length_price_losses)
  with assms show ?thesis
    by (simp add: AI_calculateRSI_def Let_def AI_calculateEMA_last)
qed

lemma App_rsi_step_simp:
  "App_rsi_step data period (g, l, r) i =
     (let diff = close (data ! i) - close (data ! (i - 1))
     in if i < period then
          (if Num 0 < diff then (g + diff, l, r @ [None])
           else (g, l - diff, r @ [None]))
        else if i = period then
          (let (g', l') = (if Num 0 < diff then (g + diff, l) else (g, l - diff));
               avgGain = g' / Num (real period);
               avgLoss = js_or (l' / Num (real period)) (Num 1);
               rs = avgGain / avgLoss
           in (g', l', r @ [Some (Num 100 - Num 100 / (Num 1 + rs))]))
        else
          (let gain = (if Num 0 < diff then diff else Num 0);
               loss = (if diff < Num 0 then - diff else Num 0);
               g' = (g * Num (real period - 1) + gain) / Num (real period);
               l' = (l * Num (real period - 1) + loss) / Num (real period);
               rs = g' / js_or l' (Num 1)
           in (g', l', r @ [Some (Num 100 - Num 100 / (Num 1 + rs))])))"
  by (simp add: App_rsi_step_def)

lemma App_rsi_step_appends:
  "\<exists>v. snd (snd (App_rsi_step data period s i)) = snd (snd s) @ [v]"
proof -
  obtain g l r where s: "s = (g, l, r)" by (cases s) auto
  show ?thesis
    unfolding s App_rsi_step_simp Let_def by (simp split: prod.splits)
qed

lemma App_loop_extends:
  "\<exists>vs. length vs = length is \<and>
     snd (snd (foldl (App_rsi_step data period) s is)) = snd (snd s) @ vs"
proof (induction "is" arbitrary: s)
  case Nil
  then show ?case by simp
next
  case (Cons i "is")
  obtain v where v: "snd (snd (App_rsi_step data period s i)) = snd (snd s) @ [v]"
    using App_rsi_step_appends by blast
  obtain vs where vs: "length vs = length is"
    "snd (snd (foldl (App_rsi_step data period) (App_rsi_step data period s i) is))
       = snd (snd (App_rsi_step data period s i)) @ vs"
    using Cons.IH by blast
  have "length (v # vs) = length (i # is)" using vs(1) by simp
  moreover have "snd (snd (foldl (App_rsi_step data period) s (i # is))) = snd (snd s) @ (v # vs)"
    using v vs(2) by simp
  ultimately show ?case by blast
qed

lemma length_App_calculateRSI: "length (App_calculateRSI data period) = length data - 1"
  using App_loop_extends [of "[1..<length data]" data period "(Num 0, Num 0, [])"]
  by (auto simp: App_calculateRSI_def)

lemma App_calculateRSI_prefix:
  assumes "k \<le> length data" and "1 \<le> k" and "j < k - 1"
  shows "App_calculateRSI data period ! j
           = snd (snd (foldl (App_rsi_step data period) (Num 0, Num 0, []) [1..<k])) ! j"
proof -
  let ?f = "App_rsi_step data period"
  let ?s = "foldl ?f (Num 0, Num 0, []) [1..<k]"
  have "[1..<length data] = [1..<k] @ [k..<length data]"
    using assms by (metis le_add_diff_inverse upt_add_eq_append)
  then have "foldl ?f (Num 0, Num 0, []) [1..<length data] = foldl ?f ?s [k..<length data]"
    by (simp only: foldl_append)
  moreover obtain vs where "snd (snd (foldl ?f ?s [k..<length data])) = snd (snd ?s) @ vs"
    using App_loop_extends by blast
  moreover have "length (snd (snd ?s)) = k - 1"
    using App_loop_extends [of "[1..<k]" data period "(Num 0, Num 0, [])"] by auto
  ultimately show ?thesis
    using assms(3) by (simp add: App_calculateRSI_def nth_append)
qed

lemma price_gains_nth:
  assumes "j < length P - 1"
  shows "price_gains P ! j =
     (if Num 0 < P ! Suc j - P ! j then P ! Suc j - P ! j else Num 0)"
proof -
  have "Suc j < length P" and "j < length P" using assms by linarith+
  then have "get P (int (1 + j)) = P ! Suc j" and "get P (int (1 + j) - 1) = P ! j"
    using get_nth [of "Suc j" P] get_nth [of j P] by simp_all
  with assms show ?thesis
    unfolding price_gains_def Let_def by (simp only: nth_map nth_upt length_upt)
qed

lemma price_losses_nth:
  assumes "j < length P - 1"
  shows "price_losses P ! j =
     (if P ! Suc j - P ! j < Num 0 then \<bar>P ! Suc j - P ! j\<bar> else Num 0)"
proof -
  have "Suc j < length P" and "j < length P" using assms by linarith+
  then have "get P (int (1 + j)) = P ! Suc j" and "get P (int (1 + j) - 1) = P ! j"
    using get_nth [of "Suc j" P] get_nth [of j P] by simp_all
  with assms show ?thesis
    unfolding price_losses_def Let_def by (simp only: nth_map nth_upt length_upt)
qed

lemma price_gains_Num: "price_gains (map Num cs) = map Num (gains_ref cs)"
proof (rule nth_equalityI)
  show "length (price_gains (map Num cs)) = length (map Num (gains_ref cs))"
    by (simp add: price_gains_def gains_ref_def)
next
  fix j assume "j < length (price_gains (map Num cs))"
  then have j: "j < length (map Num cs) - 1" by (simp add: price_gains_def)
  from price_gains_nth [OF j] j
  show "price_gains (map Num cs) ! j = map Num (gains_ref cs) ! j"
    by (simp add: gains_ref_def max_def)
qed

lemma price_losses_Num: "price_losses (map Num cs) = map Num (losses_ref cs)"
proof (rule nth_equalityI)
  show "length (price_losses (map Num cs)) = length (map Num (losses_ref cs))"
    by (simp add: price_losses_def losses_ref_def)
next
  fix j assume "j < length (price_losses (map Num cs))"
  then have j: "j < length (map Num cs) - 1" by (simp add: price_losses_def)
  from price_losses_nth [OF j] j
  show "price_losses (map Num cs) ! j = map Num (losses_ref cs) ! j"
    by (simp add: losses_ref_def max_def)
qed

lemma gains_ref_take:
  assumes "p + 1 \<le> length cs"
  shows "gains_ref (take (p + 1) cs) = take p (gains_ref cs)"
proof (rule nth_equalityI)
  show "length (gains_ref (take (p + 1) cs)) = length (take p (gains_ref cs))"
    using assms by (simp add: gains_ref_def)
next
  fix j assume "j < length (gains_ref (take (p + 1) cs))"
  then have "j < p" using assms by (simp add: gains_ref_def)
  moreover from this assms have "j < length cs - 1" by linarith
  ultimately show "gains_ref (take (p + 1) cs) ! j = take p (gains_ref cs) ! j"
    using assms by (simp add: gains_ref_def min_absorb2)
qed

lemma losses_ref_take:
  assumes "p + 1 \<le> length cs"
  shows "losses_ref (take (p + 1) cs) = take p (losses_ref cs)"
proof (rule nth_equalityI)
  show "length (losses_ref (take (p + 1) cs)) = length (take p (losses_ref cs))"
    using assms by (simp add: losses_ref_def)
next
  fix j assume "j < length (losses_ref (take (p + 1) cs))"
  then have "j < p" using assms by (simp add: losses_ref_def)
  moreover from this assms have "j < length cs - 1" by linarith
  ultimately show "losses_ref (take (p + 1) cs) ! j = take p (losses_ref cs) ! j"
    using assms by (simp add: losses_ref_def min_absorb2)
qed

lemma gains_ref_nonneg: "0 \<le> sum_list (take k (gains_ref cs))"
proof (rule sum_list_nonneg)
  fix x assume "x \<in> set (take k (gains_ref cs))"
  then have "x \<in> set (gains_ref cs)" by (rule in_set_takeD)
  then show "0 \<le> x" by (auto simp: gains_ref_def)
qed

lemma losses_ref_nonneg: "0 \<le> sum_list (take k (losses_ref cs))"
proof (rule sum_list_nonneg)
  fix x assume "x \<in> set (take k (losses_ref cs))"
  then have "x \<in> set (losses_ref cs)" by (rule in_set_takeD)
  then show "0 \<le> x" by (auto simp: losses_ref_def)
qed

lemma App_step_warm:
  assumes "i < p" and "close (data ! i) = Num a" and "close (data ! (i - 1)) = Num b"
  shows "App_rsi_step data p (Num g, Num l, r) i
           = (Num (g + max (a - b) 0), Num (l + max (b - a) 0), r @ [None])"
  using assms by (simp add: App_rsi_step_simp Let_def max_def)

lemma App_step_seed:
  assumes "1 \<le> p" and "close (data ! p) = Num a" and "close (data ! (p - 1)) = Num b"
  shows "App_rsi_step data p (Num g, Num l, r) p
           = (Num (g + max (a - b) 0), Num (l + max (b - a) 0),
              r @ [Some (Num 100 - Num 100 /
                     (Num 1 + Num ((g + max (a - b) 0) / real p)
                                / js_or (Num ((l + max (b - a) 0) / real p)) (Num 1)))])"
proof -
  have "real p \<noteq> 0" using assms(1) by simp
  then show ?thesis
    using assms(2,3) by (simp add: App_rsi_step_simp Let_def max_def algebra_simps)
qed

lemma take_snoc: "k < length xs \<Longrightarrow> sum_list (take (Suc k) xs) = sum_list (take k xs) + (xs ! k :: real)"
  by (simp add: take_Suc_conv_app_nth)

lemma App_warmup:
  assumes closes: "\<And>i. i < length cs \<Longrightarrow> close (data ! i) = Num (cs ! i)"
    and k: "k < p" "k < length cs"
  shows "foldl (App_rsi_step data p) (Num 0, Num 0, []) [1..<Suc k]
           = (Num (sum_list (take k (gains_ref cs))),
              Num (sum_list (take k (losses_ref cs))),
              replicate k None)"
  using k
proof (induction k)
  case 0
  then show ?case by simp
next
  case (Suc k)
  then have k: "k < p" "k < length cs" "Suc k < p" "Suc k < length cs" by simp_all
  note IH = Suc.IH [OF k(1,2)]
  have lenr: "k < length (gains_ref cs)" "k < length (losses_ref cs)"
    using k by (simp_all add: gains_ref_def losses_ref_def)
  have g: "gains_ref cs ! k = max (cs ! Suc k - cs ! k) 0"
    and l: "losses_ref cs ! k = max (cs ! k - cs ! Suc k) 0"
    using k by (simp_all add: gains_ref_def losses_ref_def)
  have c: "close (data ! Suc k) = Num (cs ! Suc k)" "close (data ! (Suc k - 1)) = Num (cs ! k)"
    using closes k by simp_all
  have "foldl (App_rsi_step data p) (Num 0, Num 0, []) [1..<Suc (Suc k)]
      = App_rsi_step data p (foldl (App_rsi_step data p) (Num 0, Num 0, []) [1..<Suc k]) (Suc k)"
    by simp
  also have "\<dots> = (Num (sum_list (take k (gains_ref cs)) + max (cs ! Suc k - cs ! k) 0),
      Num (sum_list (take k (losses_ref cs)) + max (cs ! k - cs ! Suc k) 0),
      replicate k None @ [None])"
    unfolding IH by (rule App_step_warm [OF k(3) c])
  also have "\<dots> = (Num (sum_list (take (Suc k) (gains_ref cs))),
      Num (sum_list (take (Suc k) (losses_ref cs))), replicate (Suc k) None)"
    by (simp only: take_snoc [OF lenr(1)] take_snoc [OF lenr(2)] g l
        replicate_append_same replicate_Suc)
  finally show ?case .
qed

lemma App_seed_state:
  assumes closes: "\<And>i. i < length cs \<Longrightarrow> close (data ! i) = Num (cs ! i)"
    and p: "1 \<le> p" "p < length cs"
  shows "snd (snd (foldl (App_rsi_step data p) (Num 0, Num 0, []) [1..<Suc p]))
           = replicate (p - 1) None
             @ [Some (Num 100 - Num 100 /
                  (Num 1 + Num (sum_list (take p (gains_ref cs)) / real p)
                     / js_or (Num (sum_list (take p (losses_ref cs)) / real p)) (Num 1)))]"
proof -
  obtain k where k: "p = Suc k" using p(1) by (cases p) auto
  have kk: "k < p" "k < length cs" using k p by simp_all
  have lenr: "k < length (gains_ref cs)" "k < length (losses_ref cs)"
    using k p by (simp_all add: gains_ref_def losses_ref_def)
  have g: "gains_ref cs ! k = max (cs ! p - cs ! k) 0"
    and l: "losses_ref cs ! k = max (cs ! k - cs ! p) 0"
    using k p by (simp_all add: gains_ref_def losses_ref_def)
  have c: "close (data ! p) = Num (cs ! p)" "close (data ! (p - 1)) = Num (cs ! k)"
    using closes k p by simp_all
  have "foldl (App_rsi_step data p) (Num 0, Num 0, []) [1..<Suc p]
      = App_rsi_step data p (foldl (App_rsi_step data p) (Num 0, Num 0, []) [1..<Suc k]) p"
    using k by simp
  also note App_warmup [OF closes kk]
  also note App_step_seed [OF p(1) c]
  finally show ?thesis
    by (simp add: k take_snoc [OF lenr(1)] take_snoc [OF lenr(2)] g [unfolded k] l [unfolded k])
qed

lemma rows_closes:
  assumes "map close data = map Num cs"
  shows "length data = length cs"
    and "\<And>i. i < length cs \<Longrightarrow> close (data ! i) = Num (cs ! i)"
proof -
  show len: "length data = length cs" using assms by (metis length_map)
  fix i assume "i < length cs"
  with assms len show "close (data ! i) = Num (cs ! i)" by (metis nth_map)
qed

lemma AI_calculateRSI_seed:
  assumes "1 \<le> p" and "p + 1 \<le> length cs" and "map close data = map Num cs"
  shows "AI_calculateRSI (take (p + 1) data) p =
     rsi_value (Num (sum_list (take p (gains_ref cs)) / real p))
               (Num (sum_list (take p (losses_ref cs)) / real p))"
proof -
  have len: "length data = length cs" using assms(3) by (rule rows_closes)
  have c: "map close (take (p + 1) data) = map Num (take (p + 1) cs)"
    using assms(3) by (simp only: take_map [symmetric])
  have lg: "p \<le> length (take p (gains_ref cs))" and ll: "p \<le> length (take p (losses_ref cs))"
    using assms(2) by (simp_all add: gains_ref_def losses_ref_def)
  have ne: "TI_calculateEMA (map Num (take p xs)) p \<noteq> []" if "p \<le> length (take p xs)" for xs :: "real list"
    using that assms(1) length_TI_calculateEMA [of "map Num (take p xs)" p] by auto
  have lastT: "last (TI_calculateEMA (map Num (take p xs)) p) = Num (sum_list (take p xs) / real p)"
    if "p \<le> length (take p xs)" for xs :: "real list"
  proof -
    have "length (TI_calculateEMA (map Num (take p xs)) p) = p"
      using that by (simp add: length_TI_calculateEMA)
    then have "last (TI_calculateEMA (map Num (take p xs)) p)
        = TI_calculateEMA (map Num (take p xs)) p ! (p - 1)"
      using ne [OF that] by (simp add: last_conv_nth)
    also have "\<dots> = Num (sum_list (take p (take p xs)) / real p)"
      using assms(1) that by (rule TI_calculateEMA_seed)
    finally show ?thesis by simp
  qed
  have "p + 1 \<le> length (take (p + 1) data)" using assms(2) len by simp
  from AI_calculateRSI_is_TI [OF assms(1) this]
  show ?thesis
    unfolding c price_gains_Num price_losses_Num
      gains_ref_take [OF assms(2)] losses_ref_take [OF assms(2)]
      lastT [OF lg] lastT [OF ll] .
qed

lemma App_calculateRSI_first:
  assumes "1 \<le> p" and "p + 1 \<le> length cs" and "map close data = map Num cs"
  shows "App_calculateRSI data p ! (p - 1) =
     Some (if sum_list (take p (losses_ref cs)) = 0
           then Num (100 - 100 / (1 + sum_list (take p (gains_ref cs)) / real p))
           else AI_calculateRSI (take (p + 1) data) p)"
proof -
  note rc = rows_closes [OF assms(3)]
  let ?G = "sum_list (take p (gains_ref cs))" and ?L = "sum_list (take p (losses_ref cs))"
  have p: "real p \<noteq> 0" "0 < real p" using assms(1) by simp_all
  have "Suc p \<le> length data" and "1 \<le> Suc p" and "p - 1 < Suc p - 1"
    using assms(1,2) rc(1) by simp_all
  from App_calculateRSI_prefix [OF this, of p]
  have "App_calculateRSI data p ! (p - 1)
      = snd (snd (foldl (App_rsi_step data p) (Num 0, Num 0, []) [1..<Suc p])) ! (p - 1)" .
  also have "\<dots> = Some (Num 100 - Num 100 /
      (Num 1 + Num (?G / real p) / js_or (Num (?L / real p)) (Num 1)))"
    using App_seed_state [of cs data p, OF rc(2) assms(1)] assms(2)
    by (simp add: nth_append)
  also have "Num 100 - Num 100 / (Num 1 + Num (?G / real p) / js_or (Num (?L / real p)) (Num 1))
      = (if ?L = 0 then Num (100 - 100 / (1 + ?G / real p))
         else AI_calculateRSI (take (p + 1) data) p)"
  proof (cases "?L = 0")
    case True
    have "0 \<le> ?G / real p" using gains_ref_nonneg [of p cs] p by simp
    then have "1 + ?G / real p \<noteq> 0" by linarith
    with True show ?thesis by (simp add: js_or_def falsy_def)
  next
    case False
    then have nz: "?L / real p \<noteq> 0" using p by simp
    have ai: "AI_calculateRSI (take (p + 1) data) p =
        rsi_value (Num (?G / real p)) (Num (?L / real p))"
      using assms by (rule AI_calculateRSI_seed)
    have "js_or (Num (?L / real p)) (Num 1) = Num (?L / real p)"
      using nz by (simp add: js_or_def falsy_def)
    then show ?thesis
      unfolding ai rsi_value_def Let_def using False nz by simp
  qed
  finally show ?thesis .
qed

lemma App_calculateRSI_null:
  assumes "j + 1 < p" and "p + 1 \<le> length cs" and "map close data = map Num cs"
  shows "App_calculateRSI data p ! j = None"
proof -
  note rc = rows_closes [OF assms(3)]
  have "Suc (j + 1) \<le> length data" and "1 \<le> Suc (j + 1)" and "j < Suc (j + 1) - 1"
    using assms rc(1) by simp_all
  from App_calculateRSI_prefix [OF this, of p]
  have "App_calculateRSI data p ! j
      = snd (snd (foldl (App_rsi_step data p) (Num 0, Num 0, []) [1..<Suc (j + 1)])) ! j" .
  also have "\<dots> = replicate (j + 1) None ! j"
    using App_warmup [of cs data "j + 1" p, OF rc(2)] assms by simp
  finally show ?thesis by (simp only: nth_replicate less_add_one)
qed

text \<open>
  C1, as the code has it. For a period \<open>p \<ge> 1\<close> and at least \<open>p + 1\<close> rows of finite
  closes: \<open>calculateRSI\<close> of AIInsights.tsx is \<open>100 - 100 / (1 + RS)\<close> (\<open>100\<close> on a zero
  average loss) over the last entries of the two averages that \<open>calculateRSI\<close> of
  TechnicalIndicators.tsx computes with \<open>calculateEMA\<close>; \<open>calculateRSI\<close> of App.tsx returns
  one entry per row after the first, \<open>null\<close> before entry \<open>p - 1\<close>, and its first number,
  at entry \<open>p - 1\<close>, is the value of AIInsights.tsx on the first \<open>p + 1\<close> rows when a close
  fell among them, and \<open>100 - 100 / (1 + average gain)\<close> when none did. Nothing is stated
  about the later entries of App.tsx, which are smoothed differently, nor about which
  index of TechnicalIndicators.tsx carries which average.
\<close>

theorem RSI_components_relation:
  assumes "1 \<le> p" and "p + 1 \<le> length cs" and "map close data = map Num cs"
  shows "AI_calculateRSI data p =
           rsi_value (last (TI_calculateEMA (price_gains (map close data)) p))
                     (last (TI_calculateEMA (price_losses (map close data)) p)) \<and>
         length (App_calculateRSI data p) = length data - 1 \<and>
         (\<forall>j. j + 1 < p \<longrightarrow> App_calculateRSI data p ! j = None) \<and>
         App_calculateRSI data p ! (p - 1) =
           Some (if sum_list (take p (losses_ref cs)) = 0
                 then Num (100 - 100 / (1 + sum_list (take p (gains_ref cs)) / real p))
                 else AI_calculateRSI (take (p + 1) data) p)"
proof (intro conjI allI impI)
  have len: "length data = length cs" using assms(3) by (rule rows_closes)
  with assms(2) have "p + 1 \<le> length data" by simp
  with assms(1) show "AI_calculateRSI data p =
      rsi_value (last (TI_calculateEMA (price_gains (map close data)) p))
                (last (TI_calculateEMA (price_losses (map close data)) p))"
    by (rule AI_calculateRSI_is_TI)
  show "length (App_calculateRSI data p) = length data - 1"
    by (rule length_App_calculateRSI)
  show "App_calculateRSI data p ! j = None" if "j + 1 < p" for j
    using that assms(2,3) by (rule App_calculateRSI_null)
  show "App_calculateRSI data p ! (p - 1) =
      Some (if sum_list (take p (losses_ref cs)) = 0
            then Num (100 - 100 / (1 + sum_list (take p (gains_ref cs)) / real p))
            else AI_calculateRSI (take (p + 1) data) p)"
    using assms by (rule App_calculateRSI_first)
qed

theorem RSI_components_relation_witness:
  "AI_calculateRSI (bars_of [1, 3, 2, 4]) 2 = Num (1000 / 11) \<and>
   rsi_value (last (TI_calculateEMA (price_gains (map close (bars_of [1, 3, 2, 4]))) 2))
             (last (TI_calculateEMA (price_losses (map close (bars_of [1, 3, 2, 4]))) 2))
     = Num (1000 / 11) \<and>
   length (App_calculateRSI (bars_of [1, 3, 2, 4]) 2) = 3 \<and>
   App_calculateRSI (bars_of [1, 3, 2, 4]) 2 ! 0 = None \<and>
   App_calculateRSI (bars_of [1, 3, 2, 4]) 2 ! 1 = Some (Num (200 / 3)) \<and>
   AI_calculateRSI (take 3 (bars_of [1, 3, 2, 4])) 2 = Num (200 / 3)"
proof -
  have a: "(1::nat) \<le> 2" and b: "2 + 1 \<le> length [1, 3, 2, 4 :: real]"
    and c: "map close (bars_of [1, 3, 2, 4]) = map Num [1, 3, 2, 4]"
    by (simp_all add: bars_of_def)
  have ai: "AI_calculateRSI (bars_of [1, 3, 2, 4]) 2 = Num (1000 / 11)"
    and ai3: "AI_calculateRSI (take 3 (bars_of [1, 3, 2, 4])) 2 = Num (200 / 3)"
    by code_simp+
  have l: "sum_list (take 2 (losses_ref [1, 3, 2, 4])) \<noteq> 0"
    by (simp add: losses_ref_def upt_rec)
  from RSI_components_relation [OF a b c] ai ai3 l show ?thesis
    by (simp add: bars_of_def)
qed

text \<open>
  The claim as worded fails with the default period 14 on 29 closes that fall from 15 to
  1 and rise back to 15. At index 27 TechnicalIndicators.tsx and App.tsx both yield a
  number, \<open>0\<close> against about \<open>11.5\<close> (about \<open>10.4\<close> in the entry of App.tsx for the same
  price), and AIInsights.tsx returns about \<open>86.5\<close>, which is neither the last value of
  TechnicalIndicators.tsx (\<open>40 / 3\<close>) nor that of App.tsx.
\<close>

theorem RSI_components_differ_counterexample:
  "drop 27 (TI_calculateRSI (map Num [15, 14, 13, 12, 11, 10, 9, 8, 7, 6, 5, 4, 3, 2, 1,
     2, 3, 4, 5, 6, 7, 8, 9, 10, 11, 12, 13, 14, 15]) 14) = [Num 0, Num (40 / 3)] \<and>
   drop 26 (App_calculateRSI (bars_of [15, 14, 13, 12, 11, 10, 9, 8, 7, 6, 5, 4, 3, 2, 1,
     2, 3, 4, 5, 6, 7, 8, 9, 10, 11, 12, 13, 14, 15]) 14)
     = [Some (Num (49083966666189100 / 4731091158953433)),
        Some (Num (717463043985872700 / 62297899839648773))] \<and>
   AI_calculateRSI (bars_of [15, 14, 13, 12, 11, 10, 9, 8, 7, 6, 5, 4, 3, 2, 1,
     2, 3, 4, 5, 6, 7, 8, 9, 10, 11, 12, 13, 14, 15]) 14
     = Num (101022198558765344 / 1167717041015625)"
  by code_simp

end
